theory Spec2Isabelle
  imports Main "HOL-Library.AList" "HOL-Library.Sublist"
begin

section \<open>The SDLC AI view provider (src/extension.ts)\<close>

text \<open>
  A shallow embedding of the class \<^verbatim>\<open>SdlcAiViewProvider\<close>: its fields (all but
  \<^verbatim>\<open>_view\<close>, which is set before a message can arrive, so that \<^verbatim>\<open>postMessage\<close> always
  sends), the message handler installed by \<^verbatim>\<open>resolveWebviewView\<close>, and the methods
  \<^verbatim>\<open>callApiEndpoint\<close>, \<^verbatim>\<open>processNextAgent\<close>, \<^verbatim>\<open>openOutputInEditor\<close>,
  \<^verbatim>\<open>validateCurrentAgentOutput\<close>, \<^verbatim>\<open>validateTask\<close> and \<^verbatim>\<open>saveData\<close>.

  Conventions of the model.
  \<^item> In this first section every handler runs to completion before the next one
    starts: it gives what one handler does when nothing else happens while it waits.
    The source is \<^verbatim>\<open>async\<close>; the handlers cut at their awaits, running in any
    order, are the second section.
  \<^item> Everything outside the class is an input of the step, collected in the record
    \<open>env\<close>: the replies of the HTTP service, the clock, whether the editor could open the
    temporary file, and what the reviewed document contains when it is read back.
  \<^item> What the class does to the outside is appended to three logs kept beside the
    fields: \<open>posted\<close> (messages sent to the webview), \<open>requests\<close> (calls of
    \<^verbatim>\<open>callApiEndpoint\<close>, with the data object before serialisation) and \<open>shown\<close>
    (notifications of \<^verbatim>\<open>vscode.window\<close>). \<^verbatim>\<open>console\<close> output is left out.
  \<^item> A thrown exception is a returned value of type \<open>thrown\<close>.
\<close>

subsection \<open>JavaScript values\<close>

text \<open>
  The values stored in \<^verbatim>\<open>agentOutputs\<close> have the TypeScript type \<^verbatim>\<open>any\<close>: they come from
  \<^verbatim>\<open>res.json()\<close> and \<^verbatim>\<open>JSON.parse\<close>. An object is the list of its own enumerable
  properties in enumeration order. Numbers are carried around and never computed with.
\<close>

datatype jsval =
    JUndefined
  | JNull
  | JBool bool
  | JNum int
  | JStr string
  | JArr "jsval list"
  | JObj "(string \<times> jsval) list"

text \<open>A thrown value: an instance of \<^verbatim>\<open>Error\<close> with its name and message, or anything else
  (with the text that a template literal gives for it).\<close>

datatype thrown = ErrorObj string string | NonError string

definition Error :: "string \<Rightarrow> thrown" where
  "Error msg = ErrorObj ''Error'' msg"

definition TypeError :: "string \<Rightarrow> thrown" where
  "TypeError msg = ErrorObj ''TypeError'' msg"

text \<open>The text of \<^verbatim>\<open>${error}\<close> (\<^verbatim>\<open>Error.prototype.toString\<close>).\<close>

fun render :: "thrown \<Rightarrow> string" where
  "render (ErrorObj name msg) =
     (if name = [] then msg else if msg = [] then name else name @ '': '' @ msg)"
| "render (NonError txt) = txt"

text \<open>Decimal numerals: a status code, a timestamp or an array index inside a string.\<close>

definition digit_char :: "nat \<Rightarrow> char" where
  "digit_char d = ''0123456789'' ! d"

fun decimal :: "nat \<Rightarrow> string" where
  "decimal n = (if n < 10 then [digit_char n] else decimal (n div 10) @ [digit_char (n mod 10)])"

declare decimal.simps [simp del]

definition show_int :: "int \<Rightarrow> string" where
  "show_int i = (if i < 0 then ''-'' @ decimal (nat (- i)) else decimal (nat i))"

definition quote :: "string \<Rightarrow> string" where
  "quote k = [CHR 0x27] @ k @ [CHR 0x27]"

text \<open>The keys of a string or of an array of length \<open>n\<close>, and the position a key names.\<close>

definition index_keys :: "nat \<Rightarrow> string list" where
  "index_keys n = map decimal [0..<n]"

definition find_index :: "string \<Rightarrow> nat \<Rightarrow> nat option" where
  "find_index k n = find (\<lambda>i. decimal i = k) [0..<n]"

text \<open>\<^verbatim>\<open>Object.keys(v)\<close>.\<close>

fun object_keys :: "jsval \<Rightarrow> thrown + string list" where
  "object_keys JUndefined = Inl (TypeError ''Cannot convert undefined or null to object'')"
| "object_keys JNull = Inl (TypeError ''Cannot convert undefined or null to object'')"
| "object_keys (JBool b) = Inr []"
| "object_keys (JNum n) = Inr []"
| "object_keys (JStr s) = Inr (index_keys (length s))"
| "object_keys (JArr xs) = Inr (index_keys (length xs))"
| "object_keys (JObj ps) = Inr (map fst ps)"

text \<open>\<^verbatim>\<open>v[k]\<close> for an own key \<open>k\<close> of \<open>v\<close>, the only way the source reads a property
  (\<^verbatim>\<open>updatedOutput[taskName]\<close> with \<^verbatim>\<open>taskName\<close> from \<^verbatim>\<open>Object.keys\<close>). Inherited
  properties are not modelled: any other key reads as undefined.\<close>

fun own_value :: "jsval \<Rightarrow> string \<Rightarrow> jsval" where
  "own_value (JObj ps) k = (case map_of ps k of Some v \<Rightarrow> v | None \<Rightarrow> JUndefined)"
| "own_value (JArr xs) k = (case find_index k (length xs) of Some i \<Rightarrow> xs ! i | None \<Rightarrow> JUndefined)"
| "own_value (JStr s) k = (case find_index k (length s) of Some i \<Rightarrow> JStr [s ! i] | None \<Rightarrow> JUndefined)"
| "own_value v k = JUndefined"

text \<open>Where a new property goes in the enumeration order: keys that are array indices
  (canonical numerals below \<open>2^32 - 1\<close>) come first, in ascending order; the other keys
  follow in the order of their creation.\<close>

definition digits_val :: "string \<Rightarrow> nat" where
  "digits_val k = foldl (\<lambda>n c. 10 * n + (of_char c - 48)) 0 k"

definition canonical_index :: "string \<Rightarrow> nat option" where
  "canonical_index k =
     (let n = digits_val k in if decimal n = k \<and> n < 4294967295 then Some n else None)"

fun insert_index :: "nat \<Rightarrow> string \<Rightarrow> jsval \<Rightarrow> (string \<times> jsval) list \<Rightarrow> (string \<times> jsval) list" where
  "insert_index n k v [] = [(k, v)]"
| "insert_index n k v (p # ps) =
     (case canonical_index (fst p) of
        Some m \<Rightarrow> if m < n then p # insert_index n k v ps else (k, v) # p # ps
      | None \<Rightarrow> (k, v) # p # ps)"

definition insert_prop :: "string \<Rightarrow> jsval \<Rightarrow> (string \<times> jsval) list \<Rightarrow> (string \<times> jsval) list" where
  "insert_prop k v ps =
     (case canonical_index k of None \<Rightarrow> ps @ [(k, v)] | Some n \<Rightarrow> insert_index n k v ps)"

text \<open>
  \<^verbatim>\<open>recv[k] = v\<close> in strict mode (a class body is strict code), with the messages of V8.
  An assignment that writes an own data property is computed here. The two that do
  something else (a key of an array that is not one of its indices, and \<^verbatim>\<open>__proto__\<close>
  on an object that has no such own property) are answered by the parameter \<open>exotic\<close>.
\<close>

definition set_prop ::
  "(jsval \<Rightarrow> string \<Rightarrow> jsval \<Rightarrow> thrown + jsval) \<Rightarrow> jsval \<Rightarrow> string \<Rightarrow> jsval \<Rightarrow> thrown + jsval" where
  "set_prop exotic recv k v =
     (case recv of
        JUndefined \<Rightarrow>
          Inl (TypeError (''Cannot set properties of undefined (setting '' @ quote k @ '')''))
      | JNull \<Rightarrow>
          Inl (TypeError (''Cannot set properties of null (setting '' @ quote k @ '')''))
      | JBool b \<Rightarrow>
          Inl (TypeError (''Cannot create property '' @ quote k @ '' on boolean ''
                          @ quote (if b then ''true'' else ''false'')))
      | JNum n \<Rightarrow>
          Inl (TypeError (''Cannot create property '' @ quote k @ '' on number ''
                          @ quote (show_int n)))
      | JStr s \<Rightarrow>
          Inl (TypeError
            (if k \<in> set (index_keys (length s)) \<or> k = ''length''
             then ''Cannot assign to read only property '' @ quote k @ '' of string '' @ quote s
             else ''Cannot create property '' @ quote k @ '' on string '' @ quote s))
      | JArr xs \<Rightarrow>
          (case find_index k (length xs) of
             Some i \<Rightarrow> Inr (JArr (xs[i := v]))
           | None \<Rightarrow> exotic recv k v)
      | JObj ps \<Rightarrow>
          if k \<in> set (map fst ps) then Inr (JObj (AList.update k v ps))
          else if k = ''__proto__'' then exotic recv k v
          else Inr (JObj (insert_prop k v ps)))"

subsection \<open>Messages, notifications, the service and the editor\<close>

text \<open>The data of \<^verbatim>\<open>startAgents\<close> (the field \<^verbatim>\<open>context\<close> is called \<^verbatim>\<open>projContext\<close>, as
  the source renames it).\<close>

record inputs =
  requirements :: string
  projContext :: string
  title :: string
  agents :: "string list"

text \<open>\<^verbatim>\<open>WebviewMessage\<close>: what the webview sends.\<close>

datatype webview_message =
    StartAgents inputs
  | ContinueAgent
  | ValidateTask string string jsval
  | SaveData jsval
  | Log jsval

text \<open>What \<^verbatim>\<open>postMessage\<close> sends to the webview, by its \<^verbatim>\<open>command\<close>.\<close>

datatype view_message =
    SetAgentSequence "string list"
  | AgentStarted string
  | ValidateAgent string "string list" jsval
  | AgentValidated string bool
  | TaskValidated string string bool
  | AgentsCompleted
  | ErrorMsg string

text \<open>\<^verbatim>\<open>showInformationMessage(text, ...buttons)\<close> and \<^verbatim>\<open>showErrorMessage(text)\<close>.\<close>

datatype notification =
    InformationMessage string "string list"
  | ErrorMessage string

text \<open>One \<^verbatim>\<open>fetch\<close>: it rejects, or it answers with a status and a body that
  \<^verbatim>\<open>res.json()\<close> parses or not. A parsed body, like a parsed document below, is a
  JSON value: \<open>JUndefined\<close> does not occur in it.\<close>

datatype response = Rejected thrown | Responded nat "thrown + jsval"

text \<open>\<^verbatim>\<open>openOutputInEditor\<close>: creating the directory or writing the file fails, opening or
  showing the document fails, or the document opens.\<close>

datatype editor_outcome = WriteFails thrown | OpenFails thrown | EditorOpens

text \<open>Reading the reviewed document back: \<^verbatim>\<open>openTextDocument\<close> fails, \<^verbatim>\<open>JSON.parse\<close>
  throws, or \<^verbatim>\<open>JSON.parse\<close> returns a value.\<close>

datatype review_doc = DocUnavailable thrown | DocSyntaxError thrown | DocParsed jsval

record env =
  api :: "nat \<Rightarrow> response"
  now :: nat
  editor :: editor_outcome
  document :: review_doc
  saveFault :: "thrown option"
  exotic :: "jsval \<Rightarrow> string \<Rightarrow> jsval \<Rightarrow> thrown + jsval"

subsection \<open>The provider's state\<close>

record provider =
  agentOutputs :: "string \<rightharpoonup> jsval"
  agentSequence :: "string list"
  currentAgentIndex :: int
  initialInputs :: "inputs option"
  tempFilePaths :: "string \<rightharpoonup> string"
  posted :: "view_message list"
  requests :: "(string \<times> jsval) list"
  shown :: "notification list"

definition initial :: provider where
  "initial = \<lparr> agentOutputs = Map.empty, agentSequence = [], currentAgentIndex = - 1,
               initialInputs = None, tempFilePaths = Map.empty,
               posted = [], requests = [], shown = [] \<rparr>"

definition postMessage :: "provider \<Rightarrow> view_message \<Rightarrow> provider" where
  "postMessage s m = s\<lparr>posted := posted s @ [m]\<rparr>"

definition showInformationMessage :: "provider \<Rightarrow> string \<Rightarrow> string list \<Rightarrow> provider" where
  "showInformationMessage s txt buttons = s\<lparr>shown := shown s @ [InformationMessage txt buttons]\<rparr>"

definition showErrorMessage :: "provider \<Rightarrow> string \<Rightarrow> provider" where
  "showErrorMessage s txt = s\<lparr>shown := shown s @ [ErrorMessage txt]\<rparr>"

text \<open>\<^verbatim>\<open>this.agentOutputs[name]\<close>: undefined when there is no entry.\<close>

definition stored :: "provider \<Rightarrow> string \<Rightarrow> jsval" where
  "stored s name = (case agentOutputs s name of None \<Rightarrow> JUndefined | Some v \<Rightarrow> v)"

subsection \<open>callApiEndpoint\<close>

definition res_ok :: "nat \<Rightarrow> bool" where
  "res_ok status = (200 \<le> status \<and> status \<le> 299)"

text \<open>What awaiting the call gives for a reply of the service: the \<^verbatim>\<open>fetch\<close> rejects,
  the status is not a success (\<^verbatim>\<open>!res.ok\<close>), or \<^verbatim>\<open>res.json()\<close> throws or returns.\<close>

definition settle :: "response \<Rightarrow> thrown + jsval" where
  "settle r =
     (case r of
        Rejected err \<Rightarrow> Inl err
      | Responded status body \<Rightarrow>
          if res_ok status then body
          else Inl (Error (''API call failed with status '' @ decimal status)))"

text \<open>The reply to a call is the one the service gives to the \<open>n\<close>-th request, \<open>n\<close> the
  number of requests made before it.\<close>

definition callApiEndpoint :: "provider \<Rightarrow> string \<Rightarrow> jsval \<Rightarrow> env \<Rightarrow> (thrown + jsval) \<times> provider" where
  "callApiEndpoint s endpoint dat e =
     (settle (api e (length (requests s))), s\<lparr>requests := requests s @ [(endpoint, dat)]\<rparr>)"

text \<open>\<^verbatim>\<open>JSON.stringify\<close> leaves out the properties of the data object whose value is
  undefined: these are the fields that reach the service.\<close>

fun props :: "jsval \<Rightarrow> (string \<times> jsval) list" where
  "props (JObj ps) = ps"
| "props v = []"

definition sent_fields :: "jsval \<Rightarrow> (string \<times> jsval) list" where
  "sent_fields dat = filter (\<lambda>p. snd p \<noteq> JUndefined) (props dat)"

subsection \<open>processNextAgent\<close>

text \<open>The \<^verbatim>\<open>switch (agent)\<close>: the endpoint and the data object of each of the five agents,
  \<open>None\<close> for the \<^verbatim>\<open>default\<close> branch.\<close>

definition agent_request :: "provider \<Rightarrow> inputs \<Rightarrow> string \<Rightarrow> (string \<times> jsval) option" where
  "agent_request s inp agent =
     (if agent = ''KnowledgeBase'' then
        Some (''/agent/knowledge'',
              JObj [(''user_requirements'', JStr (requirements inp)),
                    (''project_context'', JStr (projContext inp)),
                    (''title'', JStr (title inp))])
      else if agent = ''Requirements'' then
        Some (''/agent/requirements'',
              JObj [(''user_requirements'', JStr (requirements inp)),
                    (''project_context'', JStr (projContext inp)),
                    (''title'', JStr (title inp))])
      else if agent = ''Architecture'' then
        Some (''/agent/architecture'',
              JObj [(''user_requirements'', JStr (requirements inp)),
                    (''project_context'', JStr (projContext inp)),
                    (''title'', JStr (title inp)),
                    (''requirement_output'', stored s ''Requirements''),
                    (''knowledge_output'', stored s ''KnowledgeBase'')])
      else if agent = ''Skeletons'' then
        Some (''/agent/skeleton'',
              JObj [(''project_context'', JStr (projContext inp)),
                    (''title'', JStr (title inp)),
                    (''architecture_output'', stored s ''Architecture'')])
      else if agent = ''Generator'' then
        Some (''/agent/codegen'',
              JObj [(''project_context'', JStr (projContext inp)),
                    (''title'', JStr (title inp)),
                    (''architecture_output'', stored s ''Architecture''),
                    (''skeleton_output'', stored s ''Skeletons'')])
      else None)"

text \<open>\<^verbatim>\<open>${agent}_${Date.now()}.json\<close> in the global storage directory.\<close>

definition temp_file :: "string \<Rightarrow> nat \<Rightarrow> string" where
  "temp_file agent t = agent @ ''_'' @ decimal t @ ''.json''"

definition openOutputInEditor :: "provider \<Rightarrow> string \<Rightarrow> jsval \<Rightarrow> env \<Rightarrow> provider \<times> thrown option" where
  "openOutputInEditor s agent output e =
     (case editor e of
        WriteFails err \<Rightarrow> (s, Some err)
      | OpenFails err \<Rightarrow>
          (s\<lparr>tempFilePaths := (tempFilePaths s)(agent \<mapsto> temp_file agent (now e))\<rparr>, Some err)
      | EditorOpens \<Rightarrow>
          (showInformationMessage
             (s\<lparr>tempFilePaths := (tempFilePaths s)(agent \<mapsto> temp_file agent (now e))\<rparr>)
             (agent @ '' results are now open in the editor. Review and validate when ready.'')
             [''Validate''],
           None))"

text \<open>The \<^verbatim>\<open>catch\<close> of \<^verbatim>\<open>processNextAgent\<close>.\<close>

definition agent_failed :: "provider \<Rightarrow> string \<Rightarrow> thrown \<Rightarrow> provider" where
  "agent_failed s agent err =
     postMessage s (ErrorMsg (''Agent '' @ agent @ '' failed: '' @ render err))"

text \<open>\<^verbatim>\<open>this.agentSequence[this.currentAgentIndex]\<close>. The index is never negative here when the
  run starts from \<open>initial\<close>; for a negative index JavaScript reads undefined, which the
  model writes as the text of that value.\<close>

definition agent_at :: "provider \<Rightarrow> string" where
  "agent_at s =
     (if 0 \<le> currentAgentIndex s then agentSequence s ! nat (currentAgentIndex s)
      else ''undefined'')"

text \<open>The end of the \<^verbatim>\<open>try\<close> block, once the service has answered: store the output,
  open it in the editor, tell the webview. The result is the state and the exception
  that leaves the block, if any.\<close>

definition present_output :: "provider \<Rightarrow> string \<Rightarrow> jsval \<Rightarrow> env \<Rightarrow> provider \<times> thrown option" where
  "present_output s agent output e =
     (let s4 = s\<lparr>agentOutputs := (agentOutputs s)(agent \<mapsto> output)\<rparr> in
      case openOutputInEditor s4 agent output e of
        (s5, Some err) \<Rightarrow> (s5, Some err)
      | (s5, None) \<Rightarrow>
          (case object_keys output of
             Inl err \<Rightarrow> (s5, Some err)
           | Inr tasks \<Rightarrow> (postMessage s5 (ValidateAgent agent tasks output), None)))"

text \<open>The \<^verbatim>\<open>try\<close> block: the \<^verbatim>\<open>switch\<close> with its call of the service, then the lines
  above.\<close>

definition try_agent :: "provider \<Rightarrow> inputs \<Rightarrow> string \<Rightarrow> env \<Rightarrow> provider \<times> thrown option" where
  "try_agent s inp agent e =
     (case agent_request s inp agent of
        None \<Rightarrow> (s, Some (Error (''Unknown agent: '' @ agent)))
      | Some (endpoint, dat) \<Rightarrow>
          (case callApiEndpoint s endpoint dat e of
             (Inl err, s3) \<Rightarrow> (s3, Some err)
           | (Inr output, s3) \<Rightarrow> present_output s3 agent output e))"

text \<open>The result is the state and the exception that leaves the method, if any: only
  \<^verbatim>\<open>Initial inputs not set\<close> does, everything after it is caught.\<close>

definition processNextAgent :: "provider \<Rightarrow> env \<Rightarrow> provider \<times> thrown option" where
  "processNextAgent s e =
     (let s1 = s\<lparr>currentAgentIndex := currentAgentIndex s + 1\<rparr> in
      case initialInputs s1 of
        None \<Rightarrow> (s1, Some (Error ''Initial inputs not set''))
      | Some inp \<Rightarrow>
          if int (length (agentSequence s1)) \<le> currentAgentIndex s1 then
            (showInformationMessage (postMessage s1 AgentsCompleted)
               ''SDLC Process completed successfully'' [], None)
          else
            (let agent = agent_at s1;
                 s2 = postMessage s1 (AgentStarted agent)
             in (case try_agent s2 inp agent e of
                   (s3, Some err) \<Rightarrow> (agent_failed s3 agent err, None)
                 | (s3, None) \<Rightarrow> (s3, None))))"

subsection \<open>validateTask and validateCurrentAgentOutput\<close>

definition validateTask ::
  "provider \<Rightarrow> string \<Rightarrow> string \<Rightarrow> jsval \<Rightarrow> env \<Rightarrow> provider \<times> thrown option" where
  "validateTask s agentName taskName output e =
     (case callApiEndpoint s ''/agent/validate''
             (JObj [(''task_name'', JStr taskName), (''modified_output'', output)]) e of
        (Inl err, s1) \<Rightarrow> (s1, Some err)
      | (Inr ack, s1) \<Rightarrow>
          (case set_prop (exotic e) (stored s1 agentName) taskName output of
             Inl err \<Rightarrow> (s1, Some err)
           | Inr entry \<Rightarrow>
               (postMessage
                  (s1\<lparr>agentOutputs := (agentOutputs s1)(agentName \<mapsto> entry)\<rparr>)
                  (TaskValidated agentName taskName True),
                None)))"

text \<open>The loop \<^verbatim>\<open>for (const taskName of Object.keys(updatedOutput))\<close>. The keys are
  computed once; \<^verbatim>\<open>updatedOutput\<close> is the object just stored in \<^verbatim>\<open>agentOutputs[agent]\<close>, so
  \<^verbatim>\<open>updatedOutput[taskName]\<close> is read from the store. The first exception ends the loop.\<close>

fun validate_tasks :: "provider \<Rightarrow> string \<Rightarrow> string list \<Rightarrow> env \<Rightarrow> provider \<times> thrown option" where
  "validate_tasks s agent [] e = (s, None)"
| "validate_tasks s agent (taskName # rest) e =
     (case validateTask s agent taskName (own_value (stored s agent) taskName) e of
        (s1, Some err) \<Rightarrow> (s1, Some err)
      | (s1, None) \<Rightarrow> validate_tasks s1 agent rest e)"

text \<open>The inner and the outer \<^verbatim>\<open>catch\<close> of \<^verbatim>\<open>validateCurrentAgentOutput\<close>.\<close>

fun invalid_json :: "provider \<Rightarrow> thrown \<Rightarrow> provider" where
  "invalid_json s (ErrorObj name msg) =
     showErrorMessage s (''Invalid JSON format: '' @ msg @ ''. Please fix the errors and try again.'')"
| "invalid_json s (NonError txt) =
     showErrorMessage s
       ''Invalid JSON format: An unknown error occurred. Please fix the errors and try again.''"

fun validating_failed :: "provider \<Rightarrow> thrown \<Rightarrow> provider" where
  "validating_failed s (ErrorObj name msg) =
     showErrorMessage s (''Error validating output: '' @ msg)"
| "validating_failed s (NonError txt) =
     showErrorMessage s ''Error validating output: An unknown error occurred.''"

definition validateCurrentAgentOutput :: "provider \<Rightarrow> string \<Rightarrow> env \<Rightarrow> provider" where
  "validateCurrentAgentOutput s agent e =
     (case tempFilePaths s agent of
        None \<Rightarrow> validating_failed s (Error (''No file found for agent '' @ agent))
      | Some tempFilePath \<Rightarrow>
          (case document e of
             DocUnavailable err \<Rightarrow> validating_failed s err
           | DocSyntaxError err \<Rightarrow> invalid_json s err
           | DocParsed updatedOutput \<Rightarrow>
               let s1 = s\<lparr>agentOutputs := (agentOutputs s)(agent \<mapsto> updatedOutput)\<rparr> in
               (case object_keys updatedOutput of
                  Inl err \<Rightarrow> invalid_json s1 err
                | Inr tasks \<Rightarrow>
                    (case validate_tasks s1 agent tasks e of
                       (s2, Some err) \<Rightarrow> invalid_json s2 err
                     | (s2, None) \<Rightarrow>
                         showInformationMessage
                           (postMessage s2 (AgentValidated agent True))
                           (agent @ '' output validated successfully.'') [''Continue'']))))"

subsection \<open>saveData and the message handler\<close>

definition saveData :: "provider \<Rightarrow> jsval \<Rightarrow> env \<Rightarrow> provider \<times> thrown option" where
  "saveData s dat e =
     (case saveFault e of
        Some err \<Rightarrow> (s, Some err)
      | None \<Rightarrow> (showInformationMessage s ''Input and results saved successfully'' [], None))"

text \<open>The \<^verbatim>\<open>catch\<close> around the \<^verbatim>\<open>switch\<close> of the handler.\<close>

fun handled :: "provider \<times> thrown option \<Rightarrow> provider" where
  "handled (s, None) = s"
| "handled (s, Some err) =
     postMessage s (ErrorMsg (''Failed to process request: '' @ render err))"

fun onDidReceiveMessage :: "provider \<Rightarrow> webview_message \<Rightarrow> env \<Rightarrow> provider" where
  "onDidReceiveMessage s (StartAgents dat) e =
     (let s1 = s\<lparr>initialInputs := Some dat, agentSequence := agents dat,
                 agentOutputs := Map.empty, currentAgentIndex := - 1,
                 tempFilePaths := Map.empty\<rparr>;
          s2 = postMessage s1 (SetAgentSequence (agentSequence s1))
      in handled (processNextAgent s2 e))"
| "onDidReceiveMessage s ContinueAgent e = handled (processNextAgent s e)"
| "onDidReceiveMessage s (ValidateTask agentName taskName output) e =
     handled (validateTask s agentName taskName output e)"
| "onDidReceiveMessage s (SaveData dat) e = handled (saveData s dat e)"
| "onDidReceiveMessage s (Log dat) e = s"

subsection \<open>Runs\<close>

text \<open>What can happen to the provider: a message of the webview arrives, or the human
  picks the button of a notification (\<^verbatim>\<open>Validate\<close> on the one of
  \<^verbatim>\<open>openOutputInEditor\<close> for an agent, \<^verbatim>\<open>Continue\<close> on the one of a validated agent).
  The model lets a button be picked at any time, which only adds runs. In a \<open>run\<close> each
  of them is handled to its end before the next one happens.\<close>

datatype action = Receive webview_message | ValidateSelected string | ContinueSelected

fun step :: "provider \<Rightarrow> action \<times> env \<Rightarrow> provider" where
  "step s (Receive m, e) = onDidReceiveMessage s m e"
| "step s (ValidateSelected agent, e) = validateCurrentAgentOutput s agent e"
| "step s (ContinueSelected, e) = fst (processNextAgent s e)"

definition run :: "provider \<Rightarrow> (action \<times> env) list \<Rightarrow> provider" where
  "run s acts = foldl step s acts"

subsection \<open>Reading the logs\<close>

text \<open>The entry that \<^verbatim>\<open>validateTask\<close> adds to \<open>requests\<close>.\<close>

definition validation_call :: "string \<Rightarrow> jsval \<Rightarrow> string \<times> jsval" where
  "validation_call taskName output =
     (''/agent/validate'', JObj [(''task_name'', JStr taskName), (''modified_output'', output)])"

text \<open>The agents whose dispatch was announced (\<^verbatim>\<open>agentStarted\<close>) since the last
  \<^verbatim>\<open>setAgentSequence\<close>, in the order of the announcements.\<close>

fun track :: "string list \<Rightarrow> view_message \<Rightarrow> string list" where
  "track acc (SetAgentSequence names) = []"
| "track acc (AgentStarted agent) = acc @ [agent]"
| "track acc m = acc"

definition started_agents :: "view_message list \<Rightarrow> string list" where
  "started_agents ms = foldl track [] ms"

text \<open>The \<^verbatim>\<open>switch\<close> of \<^verbatim>\<open>processNextAgent\<close> read as a table: for each agent, the fields of
  its data object that are filled from \<^verbatim>\<open>agentOutputs\<close>, with the agent whose output
  each one takes.\<close>

definition predecessor_fields :: "string \<Rightarrow> (string \<times> string) list" where
  "predecessor_fields agent =
     (if agent = ''Architecture'' then
        [(''requirement_output'', ''Requirements''), (''knowledge_output'', ''KnowledgeBase'')]
      else if agent = ''Skeletons'' then
        [(''architecture_output'', ''Architecture'')]
      else if agent = ''Generator'' then
        [(''architecture_output'', ''Architecture''), (''skeleton_output'', ''Skeletons'')]
      else [])"

text \<open>What the order of dispatch depends on: the index, the sequence, the inputs and the
  agents started so far.\<close>

definition progress :: "provider \<Rightarrow> int \<times> string list \<times> inputs option \<times> string list" where
  "progress s = (currentAgentIndex s, agentSequence s, initialInputs s, started_agents (posted s))"

fun is_progress :: "view_message \<Rightarrow> bool" where
  "is_progress (SetAgentSequence names) = True"
| "is_progress (AgentStarted agent) = True"
| "is_progress m = False"

section \<open>The handlers between their awaits\<close>

text \<open>
  The handlers are \<^verbatim>\<open>async\<close>: each one runs until its next \<^verbatim>\<open>await\<close>, and while it waits
  other handlers run. This section models the same code in these pieces. A handler that
  waits is a \<open>continuation\<close> in the list \<open>pending\<close>; a step is the arrival of a message,
  the pick of a button, or the resumption of one waiting handler, in any order.
  \<^item> Consecutive awaits between which the handler touches no field are one wait
    (\<^verbatim>\<open>fetch\<close> and \<^verbatim>\<open>res.json()\<close>; \<^verbatim>\<open>createDirectory\<close> and \<^verbatim>\<open>writeFile\<close>;
    \<^verbatim>\<open>openTextDocument\<close> and \<^verbatim>\<open>showTextDocument\<close>), and the return of a call to the
    \<^verbatim>\<open>await\<close> of its caller is part of the same piece when the call did nothing after
    its own wait.
  \<^item> Where a call returns to an \<^verbatim>\<open>await\<close> after having written a field, the caller goes
    on in a later piece, and the model lets any step happen in between; the JavaScript
    job queue allows fewer orders, never more.
  \<^item> The outputs are objects shared by reference: \<^verbatim>\<open>agentOutputs\<close> holds references
    into \<open>objects\<close>, and the local variables \<^verbatim>\<open>output\<close> and \<^verbatim>\<open>updatedOutput\<close> of a waiting
    handler are references to the same objects. Nested values are never changed in
    place, so they are plain values.
  \<^item> All effects go to one log, \<open>trace\<close>, in the order in which they happen.
\<close>

datatype effect = Post view_message | Request string jsval | Notify notification

text \<open>Who called \<^verbatim>\<open>processNextAgent\<close>: the message handler, which awaits it inside its
  \<^verbatim>\<open>try\<close>, or the callback of the \<^verbatim>\<open>Continue\<close> button, which does not.\<close>

datatype caller = Handler | Callback

text \<open>Who called \<^verbatim>\<open>validateTask\<close>: the message handler, or the loop of
  \<^verbatim>\<open>validateCurrentAgentOutput\<close>, with the reference held by \<^verbatim>\<open>updatedOutput\<close> and the
  task names that the loop has still to visit.\<close>

datatype origin = FromMessage | FromReview nat "string list"

text \<open>A waiting handler, with the local variables it needs when it goes on. A request
  is known by its number: the count of requests sent before it.
  \<^item> \<open>AwaitReply n agent\<close>: \<^verbatim>\<open>processNextAgent\<close> at \<^verbatim>\<open>await this.callApiEndpoint\<close>.
  \<^item> \<open>AwaitWrite agent r path\<close>: \<^verbatim>\<open>openOutputInEditor\<close> at \<^verbatim>\<open>createDirectory\<close> and
    \<^verbatim>\<open>writeFile\<close>, \<open>r\<close> the reference in \<^verbatim>\<open>output\<close>.
  \<^item> \<open>AwaitOpen agent r\<close>: the same at \<^verbatim>\<open>openTextDocument\<close> and \<^verbatim>\<open>showTextDocument\<close>.
  \<^item> \<open>Present agent r\<close>: \<^verbatim>\<open>processNextAgent\<close> after \<^verbatim>\<open>await this.openOutputInEditor\<close>.
  \<^item> \<open>AwaitDocument agent\<close>: \<^verbatim>\<open>validateCurrentAgentOutput\<close> at \<^verbatim>\<open>openTextDocument\<close>.
  \<^item> \<open>AwaitAck n origin agentName taskName output\<close>: \<^verbatim>\<open>validateTask\<close> at
    \<^verbatim>\<open>await this.callApiEndpoint\<close>.
  \<^item> \<open>NextTask agent r rest\<close>: the loop after \<^verbatim>\<open>await this.validateTask\<close>.
  \<^item> \<open>AwaitSave\<close>: \<^verbatim>\<open>saveData\<close> at \<^verbatim>\<open>createDirectory\<close> and \<^verbatim>\<open>writeFile\<close>.
  \<^item> \<open>HandlerCatch err\<close>: the message handler at \<^verbatim>\<open>await this.processNextAgent()\<close>,
    the promise rejected with \<open>err\<close>.\<close>

datatype continuation =
    AwaitReply nat string
  | AwaitWrite string nat string
  | AwaitOpen string nat
  | Present string nat
  | AwaitDocument string
  | AwaitAck nat origin string string jsval
  | NextTask string nat "string list"
  | AwaitSave
  | HandlerCatch thrown

text \<open>The fields of the provider (primed, with \<^verbatim>\<open>agentOutputs\<close> by reference), the
  objects, the next free reference, the log and the waiting handlers.\<close>

record runtime =
  agentOutputs' :: "string \<rightharpoonup> nat"
  objects :: "nat \<Rightarrow> jsval"
  fresh :: nat
  agentSequence' :: "string list"
  currentAgentIndex' :: int
  initialInputs' :: "inputs option"
  tempFilePaths' :: "string \<rightharpoonup> string"
  trace :: "effect list"
  pending :: "continuation list"

definition boot :: runtime where
  "boot = \<lparr> agentOutputs' = Map.empty, objects = (\<lambda>r. JUndefined), fresh = 0,
            agentSequence' = [], currentAgentIndex' = - 1, initialInputs' = None,
            tempFilePaths' = Map.empty, trace = [], pending = [] \<rparr>"

fun posts :: "effect list \<Rightarrow> view_message list" where
  "posts [] = []"
| "posts (Post m # effs) = m # posts effs"
| "posts (eff # effs) = posts effs"

fun calls :: "effect list \<Rightarrow> (string \<times> jsval) list" where
  "calls [] = []"
| "calls (Request endpoint dat # effs) = (endpoint, dat) # calls effs"
| "calls (eff # effs) = calls effs"

fun notices :: "effect list \<Rightarrow> notification list" where
  "notices [] = []"
| "notices (Notify n # effs) = n # notices effs"
| "notices (eff # effs) = notices effs"

text \<open>The fields as a handler reads them at this moment, every reference followed.\<close>

definition as_provider :: "runtime \<Rightarrow> provider" where
  "as_provider s =
     \<lparr> agentOutputs = (\<lambda>name. map_option (objects s) (agentOutputs' s name)),
       agentSequence = agentSequence' s,
       currentAgentIndex = currentAgentIndex' s,
       initialInputs = initialInputs' s,
       tempFilePaths = tempFilePaths' s,
       posted = posts (trace s), requests = calls (trace s), shown = notices (trace s) \<rparr>"

definition emit :: "runtime \<Rightarrow> effect \<Rightarrow> runtime" where
  "emit s eff = s\<lparr>trace := trace s @ [eff]\<rparr>"

definition suspend :: "runtime \<Rightarrow> continuation \<Rightarrow> runtime" where
  "suspend s t = s\<lparr>pending := pending s @ [t]\<rparr>"

text \<open>A new object: \<^verbatim>\<open>res.json()\<close> and \<^verbatim>\<open>JSON.parse\<close> return one that nothing else
  refers to.\<close>

definition alloc :: "runtime \<Rightarrow> jsval \<Rightarrow> nat \<times> runtime" where
  "alloc s v = (fresh s, s\<lparr>objects := (objects s)(fresh s := v), fresh := fresh s + 1\<rparr>)"

text \<open>\<^verbatim>\<open>callApiEndpoint\<close> up to its \<^verbatim>\<open>await fetch\<close>: the request leaves. The result is the
  number of the request.\<close>

definition send :: "runtime \<Rightarrow> string \<Rightarrow> jsval \<Rightarrow> nat \<times> runtime" where
  "send s endpoint dat = (length (calls (trace s)), emit s (Request endpoint dat))"

text \<open>The three \<^verbatim>\<open>catch\<close> blocks that report, as in the section above.\<close>

definition agent_failed' :: "runtime \<Rightarrow> string \<Rightarrow> thrown \<Rightarrow> runtime" where
  "agent_failed' s agent err =
     emit s (Post (ErrorMsg (''Agent '' @ agent @ '' failed: '' @ render err)))"

definition request_failed :: "runtime \<Rightarrow> thrown \<Rightarrow> runtime" where
  "request_failed s err =
     emit s (Post (ErrorMsg (''Failed to process request: '' @ render err)))"

fun invalid_json' :: "runtime \<Rightarrow> thrown \<Rightarrow> runtime" where
  "invalid_json' s (ErrorObj name msg) =
     emit s (Notify (ErrorMessage
       (''Invalid JSON format: '' @ msg @ ''. Please fix the errors and try again.'')))"
| "invalid_json' s (NonError txt) =
     emit s (Notify (ErrorMessage
       ''Invalid JSON format: An unknown error occurred. Please fix the errors and try again.''))"

fun validating_failed' :: "runtime \<Rightarrow> thrown \<Rightarrow> runtime" where
  "validating_failed' s (ErrorObj name msg) =
     emit s (Notify (ErrorMessage (''Error validating output: '' @ msg)))"
| "validating_failed' s (NonError txt) =
     emit s (Notify (ErrorMessage ''Error validating output: An unknown error occurred.''))"

text \<open>\<^verbatim>\<open>processNextAgent\<close> from its first line to its first \<^verbatim>\<open>await\<close>: the index moves,
  and for an agent of the sequence the announcement is posted, the data object is built
  from the store as it is, and the request leaves. An unknown name is thrown and caught
  in the same piece. \<^verbatim>\<open>Initial inputs not set\<close> rejects the promise of the method: the
  handler catches it in a later piece, the callback not at all.\<close>

definition begin_processNextAgent :: "runtime \<Rightarrow> caller \<Rightarrow> runtime" where
  "begin_processNextAgent s c =
     (let s1 = s\<lparr>currentAgentIndex' := currentAgentIndex' s + 1\<rparr> in
      case initialInputs' s1 of
        None \<Rightarrow>
          (case c of
             Handler \<Rightarrow> suspend s1 (HandlerCatch (Error ''Initial inputs not set''))
           | Callback \<Rightarrow> s1)
      | Some inp \<Rightarrow>
          if int (length (agentSequence' s1)) \<le> currentAgentIndex' s1 then
            emit (emit s1 (Post AgentsCompleted))
              (Notify (InformationMessage ''SDLC Process completed successfully'' []))
          else
            (let agent = agent_at (as_provider s1);
                 s2 = emit s1 (Post (AgentStarted agent))
             in (case agent_request (as_provider s2) inp agent of
                   None \<Rightarrow> agent_failed' s2 agent (Error (''Unknown agent: '' @ agent))
                 | Some (endpoint, dat) \<Rightarrow>
                     (case send s2 endpoint dat of
                        (n, s3) \<Rightarrow> suspend s3 (AwaitReply n agent)))))"

text \<open>\<^verbatim>\<open>validateTask\<close> up to its \<^verbatim>\<open>await\<close>.\<close>

definition begin_validateTask ::
  "runtime \<Rightarrow> origin \<Rightarrow> string \<Rightarrow> string \<Rightarrow> jsval \<Rightarrow> runtime" where
  "begin_validateTask s orig agentName taskName output =
     (case send s ''/agent/validate''
             (JObj [(''task_name'', JStr taskName), (''modified_output'', output)]) of
        (n, s1) \<Rightarrow> suspend s1 (AwaitAck n orig agentName taskName output))"

text \<open>The head of the loop of \<^verbatim>\<open>validateCurrentAgentOutput\<close>: the next task is read from
  the object of \<^verbatim>\<open>updatedOutput\<close> and sent; after the last one the agent is reported
  validated.\<close>

fun next_task :: "runtime \<Rightarrow> string \<Rightarrow> nat \<Rightarrow> string list \<Rightarrow> runtime" where
  "next_task s agent r [] =
     emit (emit s (Post (AgentValidated agent True)))
       (Notify (InformationMessage (agent @ '' output validated successfully.'') [''Continue'']))"
| "next_task s agent r (taskName # rest) =
     begin_validateTask s (FromReview r rest) agent taskName (own_value (objects s r) taskName)"

text \<open>\<^verbatim>\<open>validateCurrentAgentOutput\<close> up to its \<^verbatim>\<open>await\<close>.\<close>

definition begin_validateCurrentAgentOutput :: "runtime \<Rightarrow> string \<Rightarrow> runtime" where
  "begin_validateCurrentAgentOutput s agent =
     (case tempFilePaths' s agent of
        None \<Rightarrow> validating_failed' s (Error (''No file found for agent '' @ agent))
      | Some tempFilePath \<Rightarrow> suspend s (AwaitDocument agent))"

text \<open>\<^verbatim>\<open>this.agentOutputs[agentName][taskName] = output\<close>: the object that the store refers
  to now is changed in place.\<close>

definition assign_output :: "runtime \<Rightarrow> string \<Rightarrow> string \<Rightarrow> jsval \<Rightarrow> env \<Rightarrow> thrown + runtime" where
  "assign_output s agentName taskName output e =
     (case agentOutputs' s agentName of
        None \<Rightarrow>
          Inl (TypeError (''Cannot set properties of undefined (setting '' @ quote taskName @ '')''))
      | Some r \<Rightarrow>
          (case set_prop (exotic e) (objects s r) taskName output of
             Inl err \<Rightarrow> Inl err
           | Inr entry \<Rightarrow> Inr (s\<lparr>objects := (objects s)(r := entry)\<rparr>)))"

text \<open>A waiting handler goes on, with what it was waiting for: the reply to its request
  (\<open>api e n\<close>), the outcome of the file operations (\<open>editor e\<close>: a write fails with
  \<open>WriteFails\<close> only, an open with \<open>OpenFails\<close> only), the document, or nothing.\<close>

fun resume :: "runtime \<Rightarrow> continuation \<Rightarrow> env \<Rightarrow> runtime" where
  "resume s (AwaitReply n agent) e =
     (case settle (api e n) of
        Inl err \<Rightarrow> agent_failed' s agent err
      | Inr output \<Rightarrow>
          (case alloc s output of
             (r, s1) \<Rightarrow>
               suspend (s1\<lparr>agentOutputs' := (agentOutputs' s1)(agent \<mapsto> r)\<rparr>)
                 (AwaitWrite agent r (temp_file agent (now e)))))"
| "resume s (AwaitWrite agent r tempFilePath) e =
     (case editor e of
        WriteFails err \<Rightarrow> agent_failed' s agent err
      | OpenFails err \<Rightarrow>
          suspend (s\<lparr>tempFilePaths' := (tempFilePaths' s)(agent \<mapsto> tempFilePath)\<rparr>)
            (AwaitOpen agent r)
      | EditorOpens \<Rightarrow>
          suspend (s\<lparr>tempFilePaths' := (tempFilePaths' s)(agent \<mapsto> tempFilePath)\<rparr>)
            (AwaitOpen agent r))"
| "resume s (AwaitOpen agent r) e =
     (case editor e of
        OpenFails err \<Rightarrow> agent_failed' s agent err
      | WriteFails err \<Rightarrow>
          suspend (emit s (Notify (InformationMessage
              (agent @ '' results are now open in the editor. Review and validate when ready.'')
              [''Validate''])))
            (Present agent r)
      | EditorOpens \<Rightarrow>
          suspend (emit s (Notify (InformationMessage
              (agent @ '' results are now open in the editor. Review and validate when ready.'')
              [''Validate''])))
            (Present agent r))"
| "resume s (Present agent r) e =
     (case object_keys (objects s r) of
        Inl err \<Rightarrow> agent_failed' s agent err
      | Inr tasks \<Rightarrow> emit s (Post (ValidateAgent agent tasks (objects s r))))"
| "resume s (AwaitDocument agent) e =
     (case document e of
        DocUnavailable err \<Rightarrow> validating_failed' s err
      | DocSyntaxError err \<Rightarrow> invalid_json' s err
      | DocParsed updatedOutput \<Rightarrow>
          (case alloc s updatedOutput of
             (r, s1) \<Rightarrow>
               let s2 = s1\<lparr>agentOutputs' := (agentOutputs' s1)(agent \<mapsto> r)\<rparr> in
               (case object_keys updatedOutput of
                  Inl err \<Rightarrow> invalid_json' s2 err
                | Inr tasks \<Rightarrow> next_task s2 agent r tasks)))"
| "resume s (AwaitAck n orig agentName taskName output) e =
     (let done =
        (case settle (api e n) of
           Inl err \<Rightarrow> Inl err
         | Inr ack \<Rightarrow>
             (case assign_output s agentName taskName output e of
                Inl err \<Rightarrow> Inl err
              | Inr s1 \<Rightarrow> Inr (emit s1 (Post (TaskValidated agentName taskName True)))))
      in case orig of
           FromMessage \<Rightarrow>
             (case done of Inl err \<Rightarrow> request_failed s err | Inr s2 \<Rightarrow> s2)
         | FromReview r rest \<Rightarrow>
             (case done of
                Inl err \<Rightarrow> invalid_json' s err
              | Inr s2 \<Rightarrow> suspend s2 (NextTask agentName r rest)))"
| "resume s (NextTask agent r rest) e = next_task s agent r rest"
| "resume s AwaitSave e =
     (case saveFault e of
        Some err \<Rightarrow> request_failed s err
      | None \<Rightarrow> emit s (Notify (InformationMessage ''Input and results saved successfully'' [])))"
| "resume s (HandlerCatch err) e = request_failed s err"

text \<open>What happens: a message arrives, a button is picked, or the \<open>k\<close>-th waiting handler
  goes on (nothing happens if there is none).\<close>

datatype event = Arrives webview_message | PicksValidate string | PicksContinue | Resumes nat

fun occur :: "runtime \<Rightarrow> event \<times> env \<Rightarrow> runtime" where
  "occur s (Arrives (StartAgents dat), e) =
     (let s1 = s\<lparr>initialInputs' := Some dat, agentSequence' := agents dat,
                 agentOutputs' := Map.empty, currentAgentIndex' := - 1,
                 tempFilePaths' := Map.empty\<rparr>;
          s2 = emit s1 (Post (SetAgentSequence (agentSequence' s1)))
      in begin_processNextAgent s2 Handler)"
| "occur s (Arrives ContinueAgent, e) = begin_processNextAgent s Handler"
| "occur s (Arrives (ValidateTask agentName taskName output), e) =
     begin_validateTask s FromMessage agentName taskName output"
| "occur s (Arrives (SaveData dat), e) = suspend s AwaitSave"
| "occur s (Arrives (Log dat), e) = s"
| "occur s (PicksValidate agent, e) = begin_validateCurrentAgentOutput s agent"
| "occur s (PicksContinue, e) = begin_processNextAgent s Callback"
| "occur s (Resumes k, e) =
     (if k < length (pending s)
      then resume (s\<lparr>pending := take k (pending s) @ drop (Suc k) (pending s)\<rparr>) (pending s ! k) e
      else s)"

definition interleaved :: "runtime \<Rightarrow> (event \<times> env) list \<Rightarrow> runtime" where
  "interleaved s evs = foldl occur s evs"


subsection \<open>Reading the log of dispatches\<close>

text \<open>The endpoint that the \<^verbatim>\<open>switch\<close> has for an agent; it depends neither on the inputs
  nor on the store.\<close>

definition agent_endpoint :: "string \<Rightarrow> string option" where
  "agent_endpoint agent =
     map_option fst (agent_request initial
        \<lparr> requirements = [], projContext = [], title = [], agents = [] \<rparr> agent)"

text \<open>What a dispatch leaves in the log: the announcement of the agent and, for a name
  the \<^verbatim>\<open>switch\<close> knows, the request to the endpoint of that agent.\<close>

datatype dispatch = Started string | Sent string

definition dispatches_of :: "string \<Rightarrow> dispatch list" where
  "dispatches_of agent =
     Started agent # (case agent_endpoint agent of None \<Rightarrow> [] | Some endpoint \<Rightarrow> [Sent endpoint])"

text \<open>The dispatches since the last \<^verbatim>\<open>setAgentSequence\<close>, in the order of the log: every
  \<^verbatim>\<open>agentStarted\<close> and every request that is not a validation.\<close>

fun follow :: "dispatch list \<Rightarrow> effect \<Rightarrow> dispatch list" where
  "follow acc (Post (SetAgentSequence names)) = []"
| "follow acc (Post (AgentStarted agent)) = acc @ [Started agent]"
| "follow acc (Request endpoint dat) =
     (if endpoint = ''/agent/validate'' then acc else acc @ [Sent endpoint])"
| "follow acc eff = acc"

definition dispatch_log :: "effect list \<Rightarrow> dispatch list" where
  "dispatch_log effs = foldl follow [] effs"

definition progress' :: "runtime \<Rightarrow> int \<times> string list \<times> inputs option \<times> dispatch list" where
  "progress' s =
     (currentAgentIndex' s, agentSequence' s, initialInputs' s, dispatch_log (trace s))"

definition in_order' :: "runtime \<Rightarrow> bool" where
  "in_order' s =
     (case progress' s of (i, names, inp, log) \<Rightarrow>
        - 1 \<le> i \<and> log = concat (map dispatches_of (take (nat (i + 1)) names))
        \<and> (case inp of None \<Rightarrow> names = [] | Some d \<Rightarrow> True))"

fun quiet :: "effect \<Rightarrow> bool" where
  "quiet (Post (SetAgentSequence names)) = False"
| "quiet (Post (AgentStarted agent)) = False"
| "quiet (Request endpoint dat) = (endpoint = ''/agent/validate'')"
| "quiet eff = True"

section \<open>Concrete runs\<close>

definition demo_inputs :: "string list \<Rightarrow> inputs" where
  "demo_inputs names =
     \<lparr> requirements = ''a todo list'', projContext = ''web'', title = ''demo'', agents = names \<rparr>"

definition draft :: jsval where
  "draft = JObj [(''stories'', JStr ''as a user''), (''risks'', JNum 2)]"

definition edited :: jsval where
  "edited = JObj [(''stories'', JStr ''as an admin''), (''risks'', JNum 3)]"

text \<open>A service that answers the \<open>n\<close>-th request with the \<open>n\<close>-th reply of a list, and is
  unreachable afterwards.\<close>

definition service :: "response list \<Rightarrow> nat \<Rightarrow> response" where
  "service replies n =
     (if n < length replies then replies ! n else Rejected (TypeError ''fetch failed''))"

definition demo_env :: "response list \<Rightarrow> review_doc \<Rightarrow> env" where
  "demo_env replies doc =
     \<lparr> api = service replies, now = 1700, editor = EditorOpens, document = doc,
       saveFault = None, exotic = (\<lambda>recv k v. Inr recv) \<rparr>"

text \<open>The state in which the handler of \<^verbatim>\<open>startAgents\<close> calls \<^verbatim>\<open>processNextAgent\<close>, in a
  provider that has done nothing before.\<close>

definition started_with :: "string list \<Rightarrow> provider" where
  "started_with names =
     initial\<lparr>initialInputs := Some (demo_inputs names), agentSequence := names,
             posted := [SetAgentSequence names]\<rparr>"

text \<open>A run of two agents in which the first one has answered and waits for its review.\<close>

definition reviewing :: provider where
  "reviewing =
     run initial [(Receive (StartAgents (demo_inputs [''Requirements'', ''Architecture''])),
                   demo_env [Responded 200 (Inr draft)] (DocParsed edited))]"

text \<open>Two handlers that overlap: \<^verbatim>\<open>continueAgent\<close> arrives before the service has
  answered the first request, and the second answer comes first.\<close>

definition overlapping :: "(event \<times> env) list" where
  "overlapping =
     [(Arrives (StartAgents (demo_inputs [''Requirements'', ''Architecture''])),
       demo_env [] (DocParsed edited)),
      (Arrives ContinueAgent, demo_env [] (DocParsed edited)),
      (Resumes 1, demo_env [Responded 200 (Inr draft), Responded 200 (Inr edited)] (DocParsed edited)),
      (Resumes 0, demo_env [Responded 200 (Inr draft), Responded 200 (Inr edited)] (DocParsed edited))]"

text \<open>An environment in which the service answers three requests with success.\<close>

definition calm :: env where
  "calm = demo_env [Responded 200 (Inr draft), Responded 200 (Inr (JObj [])),
                    Responded 200 (Inr (JObj []))] (DocParsed edited)"

section \<open>Properties\<close>

subsection \<open>Own properties\<close>

lemma find_index_Some:
  "find_index k n = Some i \<Longrightarrow> i < n \<and> decimal i = k"
  unfolding find_index_def by (auto simp: find_Some_iff)

lemma index_keys_find:
  "k \<in> set (index_keys n) \<Longrightarrow> \<exists>i. find_index k n = Some i"
  unfolding find_index_def index_keys_def
  by (cases "find (\<lambda>i. decimal i = k) [0..<n]") (auto simp: find_None_iff)

text \<open>Writing to an own key the value it already has changes nothing, when it does not
  throw (it throws on a string).\<close>

lemma set_prop_own_value:
  assumes "object_keys entry = Inr ks" and "t \<in> set ks"
  shows "set_prop x entry t (own_value entry t) = Inr entry
         \<or> (\<exists>err. set_prop x entry t (own_value entry t) = Inl err)"
proof (cases entry)
  case (JArr xs)
  with assms obtain i where i: "find_index t (length xs) = Some i"
    using index_keys_find by auto
  then have "i < length xs" using find_index_Some by blast
  with JArr i show ?thesis by (simp add: set_prop_def)
next
  case (JObj ps)
  with assms have "t \<in> fst ` set ps" by auto
  then obtain v where v: "map_of ps t = Some v"
    by (metis domD dom_map_of_conv_image_fst)
  then have "AList.update t v ps = ps" by (rule AList.update_triv)
  with JObj v assms show ?thesis by (simp add: set_prop_def)
qed (use assms in \<open>auto simp: set_prop_def\<close>)

subsection \<open>One validation, and the loop over the tasks\<close>

lemma validateTask_own_value_store:
  assumes "agentOutputs s a = Some entry"
    and "object_keys entry = Inr ks" and "t \<in> set ks"
  shows "agentOutputs (fst (validateTask s a t (own_value entry t) e)) = agentOutputs s"
  using assms set_prop_own_value [OF assms(2,3), of "exotic e"]
  by (auto simp: validateTask_def callApiEndpoint_def stored_def postMessage_def
      split: sum.splits)

lemma validate_tasks_store:
  "agentOutputs s a = Some entry \<Longrightarrow> object_keys entry = Inr ks \<Longrightarrow> set ts \<subseteq> set ks \<Longrightarrow>
   agentOutputs (fst (validate_tasks s a ts e)) = agentOutputs s"
proof (induction ts arbitrary: s)
  case Nil
  then show ?case by simp
next
  case (Cons t ts)
  let ?r = "validateTask s a t (own_value entry t) e"
  have st: "stored s a = entry" using Cons.prems(1) by (simp add: stored_def)
  have keep: "agentOutputs (fst ?r) = agentOutputs s"
    using Cons.prems by (intro validateTask_own_value_store) auto
  show ?case
  proof (cases ?r)
    case (Pair s1 res)
    with keep have s1: "agentOutputs s1 = agentOutputs s" by simp
    show ?thesis
    proof (cases res)
      case None
      have "agentOutputs (fst (validate_tasks s1 a ts e)) = agentOutputs s1"
        using Cons.prems s1 by (intro Cons.IH) auto
      with Pair None st s1 show ?thesis by simp
    next
      case (Some err)
      with Pair st s1 show ?thesis by simp
    qed
  qed
qed

lemma validateTask_ack:
  assumes "settle (api e (length (requests s))) = Inr ack"
    and "agentOutputs s a = Some (JObj ps)" and "t \<in> fst ` set ps"
  shows "validateTask s a t (own_value (JObj ps) t) e =
           (s\<lparr>requests := requests s @ [validation_call t (own_value (JObj ps) t)],
              posted := posted s @ [TaskValidated a t True]\<rparr>, None)"
proof -
  from assms(3) obtain v where v: "map_of ps t = Some v"
    by (metis domD dom_map_of_conv_image_fst)
  then have "AList.update t v ps = ps" by (rule AList.update_triv)
  moreover have "(agentOutputs s)(a \<mapsto> JObj ps) = agentOutputs s"
    using assms(2) by (simp add: map_upd_triv)
  ultimately show ?thesis
    using assms v
    by (simp add: validateTask_def callApiEndpoint_def stored_def postMessage_def set_prop_def
        validation_call_def)
qed

lemma validateTask_nack:
  assumes "settle (api e (length (requests s))) = Inl err"
  shows "validateTask s a t v e = (s\<lparr>requests := requests s @ [validation_call t v]\<rparr>, Some err)"
  using assms by (simp add: validateTask_def callApiEndpoint_def validation_call_def)

text \<open>Every validation is acknowledged: the loop ends normally, with one request and one
  \<^verbatim>\<open>taskValidated\<close> for each task.\<close>

lemma validate_tasks_all_ack:
  "agentOutputs s a = Some (JObj ps) \<Longrightarrow> set ts \<subseteq> fst ` set ps \<Longrightarrow>
   \<forall>i<length ts. \<exists>ack. settle (api e (length (requests s) + i)) = Inr ack \<Longrightarrow>
   validate_tasks s a ts e =
     (s\<lparr>requests := requests s @ map (\<lambda>t. validation_call t (own_value (JObj ps) t)) ts,
        posted := posted s @ map (\<lambda>t. TaskValidated a t True) ts\<rparr>, None)"
proof (induction ts arbitrary: s)
  case Nil
  then show ?case by simp
next
  case (Cons t ts)
  let ?s1 = "s\<lparr>requests := requests s @ [validation_call t (own_value (JObj ps) t)],
                posted := posted s @ [TaskValidated a t True]\<rparr>"
  from Cons.prems(3) obtain ack where ack: "settle (api e (length (requests s))) = Inr ack"
    by force
  have one: "validateTask s a t (own_value (JObj ps) t) e = (?s1, None)"
    using ack Cons.prems by (intro validateTask_ack) auto
  have rest: "\<forall>i<length ts. \<exists>ack. settle (api e (length (requests ?s1) + i)) = Inr ack"
  proof (intro allI impI)
    fix i assume "i < length ts"
    then have "Suc i < length (t # ts)" by simp
    with Cons.prems(3) have "\<exists>ack. settle (api e (length (requests s) + Suc i)) = Inr ack"
      by blast
    then show "\<exists>ack. settle (api e (length (requests ?s1) + i)) = Inr ack" by simp
  qed
  have "validate_tasks ?s1 a ts e =
     (?s1\<lparr>requests := requests ?s1 @ map (\<lambda>t. validation_call t (own_value (JObj ps) t)) ts,
        posted := posted ?s1 @ map (\<lambda>t. TaskValidated a t True) ts\<rparr>, None)"
    using Cons.prems rest by (intro Cons.IH) auto
  with one Cons.prems(1) show ?case by (simp add: stored_def)
qed

text \<open>The first \<open>j\<close> validations are acknowledged and the next one fails: the loop ends
  with that failure, after \<open>j + 1\<close> requests and \<open>j\<close> \<^verbatim>\<open>taskValidated\<close>.\<close>

lemma validate_tasks_prefix:
  "agentOutputs s a = Some (JObj ps) \<Longrightarrow> set ts \<subseteq> fst ` set ps \<Longrightarrow> j < length ts \<Longrightarrow>
   \<forall>i<j. \<exists>ack. settle (api e (length (requests s) + i)) = Inr ack \<Longrightarrow>
   settle (api e (length (requests s) + j)) = Inl err \<Longrightarrow>
   validate_tasks s a ts e =
     (s\<lparr>requests := requests s @ map (\<lambda>t. validation_call t (own_value (JObj ps) t)) (take (Suc j) ts),
        posted := posted s @ map (\<lambda>t. TaskValidated a t True) (take j ts)\<rparr>, Some err)"
proof (induction ts arbitrary: s j)
  case Nil
  then show ?case by simp
next
  case (Cons t ts)
  show ?case
  proof (cases j)
    case 0
    with Cons.prems have "settle (api e (length (requests s))) = Inl err" by simp
    then have "validateTask s a t (own_value (JObj ps) t) e
                 = (s\<lparr>requests := requests s @ [validation_call t (own_value (JObj ps) t)]\<rparr>, Some err)"
      by (rule validateTask_nack)
    with 0 Cons.prems(1) show ?thesis by (simp add: stored_def)
  next
    case (Suc k)
    let ?s1 = "s\<lparr>requests := requests s @ [validation_call t (own_value (JObj ps) t)],
                  posted := posted s @ [TaskValidated a t True]\<rparr>"
    from Cons.prems(4) Suc obtain ack where ack: "settle (api e (length (requests s))) = Inr ack"
      by force
    have one: "validateTask s a t (own_value (JObj ps) t) e = (?s1, None)"
      using ack Cons.prems by (intro validateTask_ack) auto
    have rest: "\<forall>i<k. \<exists>ack. settle (api e (length (requests ?s1) + i)) = Inr ack"
    proof (intro allI impI)
      fix i assume "i < k"
      then have "Suc i < j" using Suc by simp
      with Cons.prems(4) have "\<exists>ack. settle (api e (length (requests s) + Suc i)) = Inr ack"
        by blast
      then show "\<exists>ack. settle (api e (length (requests ?s1) + i)) = Inr ack" by simp
    qed
    have fail: "settle (api e (length (requests ?s1) + k)) = Inl err"
      using Cons.prems(5) Suc by simp
    have "validate_tasks ?s1 a ts e =
       (?s1\<lparr>requests := requests ?s1 @ map (\<lambda>t. validation_call t (own_value (JObj ps) t)) (take (Suc k) ts),
          posted := posted ?s1 @ map (\<lambda>t. TaskValidated a t True) (take k ts)\<rparr>, Some err)"
      using Cons.prems Suc rest fail by (intro Cons.IH) auto
    with one Suc Cons.prems(1) show ?thesis by (simp add: stored_def)
  qed
qed

subsection \<open>Dispatching an agent\<close>

lemma agent_request_store:
  "agentOutputs s' = agentOutputs s \<Longrightarrow> agent_request s' inp agent = agent_request s inp agent"
  by (simp add: agent_request_def stored_def)

text \<open>A dispatch at a position inside the sequence.\<close>

lemma processNextAgent_in_range:
  assumes "initialInputs s = Some inp"
    and "- 1 \<le> currentAgentIndex s"
    and "currentAgentIndex s + 1 < int (length (agentSequence s))"
    and "agent = agentSequence s ! nat (currentAgentIndex s + 1)"
  shows "processNextAgent s e =
     (case try_agent (s\<lparr>currentAgentIndex := currentAgentIndex s + 1,
                         posted := posted s @ [AgentStarted agent]\<rparr>) inp agent e of
        (s3, Some err) \<Rightarrow> (agent_failed s3 agent err, None)
      | (s3, None) \<Rightarrow> (s3, None))"
  unfolding assms(4) using assms(1-3)
  by (simp add: processNextAgent_def Let_def agent_at_def postMessage_def)

lemma present_output_requests:
  "requests (fst (present_output s agent output e)) = requests s"
  by (cases "editor e"; cases "object_keys output")
     (simp_all add: present_output_def openOutputInEditor_def showInformationMessage_def
        postMessage_def)

lemma present_output_store:
  "agentOutputs (fst (present_output s agent output e)) = (agentOutputs s)(agent \<mapsto> output)"
  by (cases "editor e"; cases "object_keys output")
     (simp_all add: present_output_def openOutputInEditor_def showInformationMessage_def
        postMessage_def)

lemma try_agent_requests:
  "agent_request s inp agent = Some (endpoint, dat) \<Longrightarrow>
   requests (fst (try_agent s inp agent e)) = requests s @ [(endpoint, dat)]"
  by (cases "settle (api e (length (requests s)))")
     (simp_all add: try_agent_def callApiEndpoint_def present_output_requests)

lemma try_agent_store:
  "agent_request s inp agent = Some (endpoint, dat) \<Longrightarrow>
   settle (api e (length (requests s))) = Inr output \<Longrightarrow>
   agentOutputs (fst (try_agent s inp agent e)) = (agentOutputs s)(agent \<mapsto> output)"
  by (simp add: try_agent_def callApiEndpoint_def present_output_store)

lemma caught_requests:
  "requests (fst (case r of (s3, Some err) \<Rightarrow> (agent_failed s3 agent err, None)
                           | (s3, None) \<Rightarrow> (s3, None))) = requests (fst r)"
  by (cases r; cases "snd r") (simp_all add: agent_failed_def postMessage_def)

lemma caught_store:
  "agentOutputs (fst (case r of (s3, Some err) \<Rightarrow> (agent_failed s3 agent err, None)
                           | (s3, None) \<Rightarrow> (s3, None))) = agentOutputs (fst r)"
  by (cases r; cases "snd r") (simp_all add: agent_failed_def postMessage_def)

lemma processNextAgent_requests:
  assumes "initialInputs s = Some inp"
    and "- 1 \<le> currentAgentIndex s"
    and "currentAgentIndex s + 1 < int (length (agentSequence s))"
    and "agent_request s inp (agentSequence s ! nat (currentAgentIndex s + 1)) = Some (endpoint, dat)"
  shows "requests (fst (processNextAgent s e)) = requests s @ [(endpoint, dat)]"
proof -
  let ?agent = "agentSequence s ! nat (currentAgentIndex s + 1)"
  let ?s2 = "s\<lparr>currentAgentIndex := currentAgentIndex s + 1, posted := posted s @ [AgentStarted ?agent]\<rparr>"
  have "agent_request ?s2 inp ?agent = Some (endpoint, dat)"
    using assms(4) agent_request_store [of ?s2 s inp ?agent] by simp
  then have "requests (fst (try_agent ?s2 inp ?agent e)) = requests ?s2 @ [(endpoint, dat)]"
    by (rule try_agent_requests)
  then show ?thesis
    by (simp add: processNextAgent_in_range [OF assms(1-3) refl] caught_requests)
qed

lemma processNextAgent_store:
  assumes "initialInputs s = Some inp"
    and "- 1 \<le> currentAgentIndex s"
    and "currentAgentIndex s + 1 < int (length (agentSequence s))"
    and "agent = agentSequence s ! nat (currentAgentIndex s + 1)"
    and "agent_request s inp agent = Some (endpoint, dat)"
    and "settle (api e (length (requests s))) = Inr output"
  shows "agentOutputs (fst (processNextAgent s e)) = (agentOutputs s)(agent \<mapsto> output)"
proof -
  let ?s2 = "s\<lparr>currentAgentIndex := currentAgentIndex s + 1, posted := posted s @ [AgentStarted agent]\<rparr>"
  have "agent_request ?s2 inp agent = Some (endpoint, dat)"
    using assms(5) agent_request_store [of ?s2 s inp agent] by simp
  moreover have "settle (api e (length (requests ?s2))) = Inr output"
    using assms(6) by simp
  ultimately have "agentOutputs (fst (try_agent ?s2 inp agent e)) = (agentOutputs ?s2)(agent \<mapsto> output)"
    by (rule try_agent_store)
  then show ?thesis
    by (simp add: processNextAgent_in_range [OF assms(1-4)] caught_store)
qed


text \<open>The review of an agent's output leaves the parsed document in the store, whatever
  happens to the validations.\<close>

lemma review_store:
  assumes "tempFilePaths s agent = Some path" and "document e = DocParsed v"
  shows "agentOutputs (validateCurrentAgentOutput s agent e) = (agentOutputs s)(agent \<mapsto> v)"
proof (cases "object_keys v")
  case (Inl err)
  with assms show ?thesis
    by (cases err) (simp_all add: validateCurrentAgentOutput_def showErrorMessage_def)
next
  case (Inr ks)
  let ?s1 = "s\<lparr>agentOutputs := (agentOutputs s)(agent \<mapsto> v)\<rparr>"
  have keep: "agentOutputs (fst (validate_tasks ?s1 agent ks e)) = agentOutputs ?s1"
    using Inr by (intro validate_tasks_store [where entry = v and ks = ks]) auto
  show ?thesis
  proof (cases "validate_tasks ?s1 agent ks e")
    case (Pair s2 res)
    with keep have s2: "agentOutputs s2 = (agentOutputs s)(agent \<mapsto> v)" by simp
    show ?thesis
    proof (cases res)
      case None
      with Pair Inr assms s2 show ?thesis
        by (simp add: validateCurrentAgentOutput_def showInformationMessage_def postMessage_def)
    next
      case (Some err)
      with Pair Inr assms s2 show ?thesis
        by (cases err) (simp_all add: validateCurrentAgentOutput_def showErrorMessage_def)
    qed
  qed
qed

subsection \<open>What a handler leaves unchanged\<close>

lemma started_agents_snoc:
  "started_agents (ms @ [m]) = track (started_agents ms) m"
  by (simp add: started_agents_def)

lemma track_other: "\<not> is_progress m \<Longrightarrow> track acc m = acc"
  by (cases m) simp_all

lemma started_agents_other:
  "list_all (\<lambda>m. \<not> is_progress m) ms' \<Longrightarrow> started_agents (ms @ ms') = started_agents ms"
  by (induction ms' rule: rev_induct)
     (simp_all add: started_agents_snoc track_other flip: append_assoc)

lemma progress_postMessage:
  "\<not> is_progress m \<Longrightarrow> progress (postMessage s m) = progress s"
  by (simp add: progress_def postMessage_def started_agents_snoc track_other)

lemma progress_fields [simp]:
  "progress (s\<lparr>agentOutputs := x1\<rparr>) = progress s"
  "progress (s\<lparr>tempFilePaths := x2\<rparr>) = progress s"
  "progress (s\<lparr>requests := x3\<rparr>) = progress s"
  "progress (s\<lparr>shown := x4\<rparr>) = progress s"
  by (simp_all add: progress_def)

lemma progress_validateTask:
  "progress (fst (validateTask s a t v e)) = progress s"
  by (cases "settle (api e (length (requests s)))";
      cases "set_prop (exotic e) (stored s a) t v")
     (simp_all add: validateTask_def callApiEndpoint_def stored_def progress_postMessage)

lemma progress_validate_tasks:
  "progress (fst (validate_tasks s a ts e)) = progress s"
proof (induction ts arbitrary: s)
  case Nil
  then show ?case by simp
next
  case (Cons t ts)
  show ?case
  proof (cases "validateTask s a t (own_value (stored s a) t) e")
    case (Pair s1 res)
    then have "progress s1 = progress s"
      using progress_validateTask [of s a t "own_value (stored s a) t" e] by simp
    with Pair Cons.IH [of s1] show ?thesis by (cases res) simp_all
  qed
qed

lemma progress_invalid_json: "progress (invalid_json s err) = progress s"
  by (cases err) (simp_all add: showErrorMessage_def)

lemma progress_validating_failed: "progress (validating_failed s err) = progress s"
  by (cases err) (simp_all add: showErrorMessage_def)

lemma progress_validateCurrentAgentOutput:
  "progress (validateCurrentAgentOutput s agent e) = progress s"
proof (cases "tempFilePaths s agent")
  case None
  then show ?thesis
    by (simp add: validateCurrentAgentOutput_def progress_validating_failed)
next
  case (Some path)
  show ?thesis
  proof (cases "document e")
    case (DocUnavailable err)
    with Some show ?thesis by (simp add: validateCurrentAgentOutput_def progress_validating_failed)
  next
    case (DocSyntaxError err)
    with Some show ?thesis by (simp add: validateCurrentAgentOutput_def progress_invalid_json)
  next
    case (DocParsed v)
    let ?s1 = "s\<lparr>agentOutputs := (agentOutputs s)(agent \<mapsto> v)\<rparr>"
    show ?thesis
    proof (cases "object_keys v")
      case (Inl err)
      with Some DocParsed show ?thesis
        by (simp add: validateCurrentAgentOutput_def progress_invalid_json)
    next
      case (Inr ks)
      show ?thesis
      proof (cases "validate_tasks ?s1 agent ks e")
        case (Pair s2 res)
        then have "progress s2 = progress s"
          using progress_validate_tasks [of ?s1 agent ks e] by simp
        with Pair Inr Some DocParsed show ?thesis
          by (cases res)
             (simp_all add: validateCurrentAgentOutput_def progress_invalid_json
                showInformationMessage_def progress_postMessage)
      qed
    qed
  qed
qed

lemma progress_present_output:
  "progress (fst (present_output s agent output e)) = progress s"
  by (cases "editor e"; cases "object_keys output")
     (simp_all add: present_output_def openOutputInEditor_def showInformationMessage_def
        progress_postMessage)

lemma progress_try_agent:
  "progress (fst (try_agent s inp agent e)) = progress s"
proof (cases "agent_request s inp agent")
  case None
  then show ?thesis by (simp add: try_agent_def)
next
  case (Some req)
  then show ?thesis
    by (cases req; cases "settle (api e (length (requests s)))")
       (simp_all add: try_agent_def callApiEndpoint_def progress_present_output)
qed

lemma progress_caught:
  "progress (fst (case r of (s3, Some err) \<Rightarrow> (agent_failed s3 agent err, None)
                           | (s3, None) \<Rightarrow> (s3, None))) = progress (fst r)"
  by (cases r; cases "snd r") (simp_all add: agent_failed_def progress_postMessage)

lemma progress_handled:
  "progress (handled r) = progress (fst r)"
  by (cases r; cases "snd r") (simp_all add: progress_postMessage)

subsection \<open>The order of dispatch, handlers overlapping\<close>

lemma dispatch_log_snoc: "dispatch_log (effs @ [eff]) = follow (dispatch_log effs) eff"
  by (simp add: dispatch_log_def)

lemma follow_quiet: "quiet eff \<Longrightarrow> follow acc eff = acc"
  by (induction acc eff rule: follow.induct) simp_all

lemma progress'_emit: "quiet eff \<Longrightarrow> progress' (emit s eff) = progress' s"
  by (simp add: progress'_def emit_def dispatch_log_snoc follow_quiet)

lemma progress'_fields [simp]:
  "progress' (s\<lparr>agentOutputs' := x1\<rparr>) = progress' s"
  "progress' (s\<lparr>objects := x2\<rparr>) = progress' s"
  "progress' (s\<lparr>fresh := x3\<rparr>) = progress' s"
  "progress' (s\<lparr>tempFilePaths' := x4\<rparr>) = progress' s"
  "progress' (s\<lparr>pending := x5\<rparr>) = progress' s"
  by (simp_all add: progress'_def)

lemma progress'_suspend [simp]: "progress' (suspend s t) = progress' s"
  by (simp add: suspend_def)

lemma progress'_agent_failed' [simp]: "progress' (agent_failed' s agent err) = progress' s"
  by (simp add: agent_failed'_def progress'_emit)

lemma progress'_request_failed [simp]: "progress' (request_failed s err) = progress' s"
  by (simp add: request_failed_def progress'_emit)

lemma progress'_invalid_json' [simp]: "progress' (invalid_json' s err) = progress' s"
  by (cases err) (simp_all add: progress'_emit)

lemma progress'_validating_failed' [simp]: "progress' (validating_failed' s err) = progress' s"
  by (cases err) (simp_all add: progress'_emit)

lemma progress'_begin_validateTask [simp]:
  "progress' (begin_validateTask s orig agentName taskName output) = progress' s"
  by (simp add: begin_validateTask_def send_def progress'_emit)

lemma progress'_next_task [simp]: "progress' (next_task s agent r tasks) = progress' s"
  by (cases tasks) (simp_all add: progress'_emit)

lemma progress'_assign_output:
  "assign_output s agentName taskName output e = Inr s1 \<Longrightarrow> progress' s1 = progress' s"
  by (auto simp: assign_output_def split: option.splits sum.splits)

lemma progress'_resume: "progress' (resume s t e) = progress' s"
proof (cases t)
  case (AwaitReply n agent)
  then show ?thesis
    by (cases "settle (api e n)") (simp_all add: alloc_def)
next
  case (AwaitWrite agent r path)
  then show ?thesis by (cases "editor e") simp_all
next
  case (AwaitOpen agent r)
  then show ?thesis by (cases "editor e") (simp_all add: progress'_emit)
next
  case (Present agent r)
  then show ?thesis by (cases "object_keys (objects s r)") (simp_all add: progress'_emit)
next
  case (AwaitDocument agent)
  show ?thesis
  proof (cases "document e")
    case (DocParsed v)
    with AwaitDocument show ?thesis
      by (cases "object_keys v") (simp_all add: alloc_def)
  qed (simp_all add: AwaitDocument)
next
  case (AwaitAck n orig agentName taskName outp)
  show ?thesis
  proof (cases "settle (api e n)")
    case (Inl err)
    with AwaitAck show ?thesis by (cases orig) simp_all
  next
    case (Inr ack)
    show ?thesis
    proof (cases "assign_output s agentName taskName outp e")
      case (Inl err)
      with Inr AwaitAck show ?thesis by (cases orig) simp_all
    next
      case inr: (Inr s1)
      then have "progress' s1 = progress' s" by (rule progress'_assign_output)
      with inr Inr AwaitAck show ?thesis by (cases orig) (simp_all add: progress'_emit)
    qed
  qed
next
  case (NextTask agent r rest)
  then show ?thesis by simp
next
  case AwaitSave
  then show ?thesis by (cases "saveFault e") (simp_all add: progress'_emit)
next
  case (HandlerCatch err)
  then show ?thesis by simp
qed

lemma in_order'_progress': "progress' s' = progress' s \<Longrightarrow> in_order' s' = in_order' s"
  by (simp add: in_order'_def)

lemma agent_endpoint_request:
  "map_option fst (agent_request s inp agent) = agent_endpoint agent"
  by (simp add: agent_endpoint_def agent_request_def)

lemma agent_endpoint_not_validate:
  "agent_endpoint agent = Some endpoint \<Longrightarrow> endpoint \<noteq> ''/agent/validate''"
  by (auto simp: agent_endpoint_def agent_request_def split: if_splits)

text \<open>A dispatch at a position inside the sequence, in the log and in the index.\<close>

lemma begin_processNextAgent_in_range:
  assumes "initialInputs' s = Some inp"
    and "- 1 \<le> currentAgentIndex' s"
    and "currentAgentIndex' s + 1 < int (length (agentSequence' s))"
    and "agent = agentSequence' s ! nat (currentAgentIndex' s + 1)"
  shows "currentAgentIndex' (begin_processNextAgent s c) = currentAgentIndex' s + 1
       \<and> agentSequence' (begin_processNextAgent s c) = agentSequence' s
       \<and> initialInputs' (begin_processNextAgent s c) = initialInputs' s
       \<and> agentOutputs' (begin_processNextAgent s c) = agentOutputs' s
       \<and> objects (begin_processNextAgent s c) = objects s
       \<and> trace (begin_processNextAgent s c) =
           trace s @ Post (AgentStarted agent) #
             (case agent_request (as_provider s) inp agent of
                None \<Rightarrow> [Post (ErrorMsg (''Agent '' @ agent @ '' failed: Error: Unknown agent: '' @ agent))]
              | Some (endpoint, dat) \<Rightarrow> [Request endpoint dat])"
proof -
  let ?s2 = "emit (s\<lparr>currentAgentIndex' := currentAgentIndex' s + 1\<rparr>) (Post (AgentStarted agent))"
  have at: "agent_at (as_provider (s\<lparr>currentAgentIndex' := currentAgentIndex' s + 1\<rparr>)) = agent"
    using assms(2,4) by (simp add: agent_at_def as_provider_def)
  have req: "agent_request (as_provider ?s2) inp agent = agent_request (as_provider s) inp agent"
    by (simp add: agent_request_def stored_def as_provider_def emit_def)
  show ?thesis
  proof (cases "agent_request (as_provider s) inp agent")
    case None
    with assms(1,3) at req show ?thesis
      by (simp add: begin_processNextAgent_def Let_def agent_failed'_def emit_def Error_def)
  next
    case (Some p)
    with assms(1,3) at req show ?thesis
      by (cases p)
         (simp add: begin_processNextAgent_def Let_def send_def emit_def suspend_def)
  qed
qed

lemma in_order'_begin_processNextAgent:
  assumes "in_order' s"
  shows "in_order' (begin_processNextAgent s c)"
proof (cases "initialInputs' s")
  case None
  with assms show ?thesis
    by (cases c)
       (simp_all add: begin_processNextAgent_def in_order'_def progress'_def suspend_def)
next
  case (Some inp)
  from assms have idx: "- 1 \<le> currentAgentIndex' s"
    and log: "dispatch_log (trace s)
                = concat (map dispatches_of (take (nat (currentAgentIndex' s + 1)) (agentSequence' s)))"
    by (simp_all add: in_order'_def progress'_def)
  show ?thesis
  proof (cases "int (length (agentSequence' s)) \<le> currentAgentIndex' s + 1")
    case True
    with Some idx log show ?thesis
      by (simp add: begin_processNextAgent_def in_order'_def progress'_def emit_def
          dispatch_log_def)
  next
    case False
    let ?agent = "agentSequence' s ! nat (currentAgentIndex' s + 1)"
    let ?s' = "begin_processNextAgent s c"
    from False have less: "currentAgentIndex' s + 1 < int (length (agentSequence' s))" by simp
    note step = begin_processNextAgent_in_range [OF Some idx less refl, of c]
    have "nat (currentAgentIndex' s + 1) < length (agentSequence' s)"
      using less idx by simp
    then have tk: "take (Suc (nat (currentAgentIndex' s + 1))) (agentSequence' s)
                 = take (nat (currentAgentIndex' s + 1)) (agentSequence' s) @ [?agent]"
      by (rule take_Suc_conv_app_nth)
    have suc: "nat (currentAgentIndex' s + 1 + 1) = Suc (nat (currentAgentIndex' s + 1))"
      using idx by simp
    have grow: "dispatch_log (trace ?s') = dispatch_log (trace s) @ dispatches_of ?agent"
    proof (cases "agent_request (as_provider s) inp ?agent")
      case None
      then have "agent_endpoint ?agent = None"
        using agent_endpoint_request [of "as_provider s" inp ?agent] by simp
      with None step show ?thesis
        by (simp add: dispatch_log_def dispatches_of_def)
    next
      case (Some p)
      obtain endpoint dat where p: "p = (endpoint, dat)" by (cases p)
      with Some have ep: "agent_endpoint ?agent = Some endpoint"
        using agent_endpoint_request [of "as_provider s" inp ?agent] by simp
      then have "endpoint \<noteq> ''/agent/validate''" by (rule agent_endpoint_not_validate)
      with Some p ep step show ?thesis
        by (simp add: dispatch_log_def dispatches_of_def)
    qed
    from step grow log tk suc idx Some show ?thesis
      by (simp add: in_order'_def progress'_def)
  qed
qed

lemma in_order'_occur:
  assumes "in_order' s"
  shows "in_order' (occur s (ev, e))"
proof (cases ev)
  case (Arrives m)
  show ?thesis
  proof (cases m)
    case (StartAgents dat)
    let ?s2 = "emit (s\<lparr>initialInputs' := Some dat, agentSequence' := agents dat,
                 agentOutputs' := Map.empty, currentAgentIndex' := - 1,
                 tempFilePaths' := Map.empty\<rparr>) (Post (SetAgentSequence (agents dat)))"
    have "in_order' ?s2"
      by (simp add: in_order'_def progress'_def emit_def dispatch_log_snoc)
    then have "in_order' (begin_processNextAgent ?s2 Handler)"
      by (rule in_order'_begin_processNextAgent)
    with Arrives StartAgents show ?thesis by (simp add: Let_def)
  next
    case ContinueAgent
    with Arrives in_order'_begin_processNextAgent [OF assms, of Handler] show ?thesis by simp
  next
    case (ValidateTask agentName taskName outp)
    with Arrives assms show ?thesis
      by (simp add: in_order'_progress' [OF progress'_begin_validateTask])
  next
    case (SaveData dat)
    with Arrives assms show ?thesis
      by (simp add: in_order'_progress' [OF progress'_suspend])
  next
    case (Log dat)
    with Arrives assms show ?thesis by simp
  qed
next
  case (PicksValidate agent)
  have "progress' (begin_validateCurrentAgentOutput s agent) = progress' s"
    by (cases "tempFilePaths' s agent") (simp_all add: begin_validateCurrentAgentOutput_def)
  then have "in_order' (begin_validateCurrentAgentOutput s agent) = in_order' s"
    by (rule in_order'_progress')
  with PicksValidate assms show ?thesis by simp
next
  case PicksContinue
  with in_order'_begin_processNextAgent [OF assms, of Callback] show ?thesis by simp
next
  case (Resumes k)
  show ?thesis
  proof (cases "k < length (pending s)")
    case True
    let ?s0 = "s\<lparr>pending := take k (pending s) @ drop (Suc k) (pending s)\<rparr>"
    have "progress' (resume ?s0 (pending s ! k) e) = progress' ?s0"
      by (rule progress'_resume)
    then have "progress' (resume ?s0 (pending s ! k) e) = progress' s" by simp
    then have "in_order' (resume ?s0 (pending s ! k) e) = in_order' s"
      by (rule in_order'_progress')
    with Resumes True assms show ?thesis by simp
  next
    case False
    with Resumes assms show ?thesis by simp
  qed
qed

lemma in_order'_interleaved: "in_order' s \<Longrightarrow> in_order' (interleaved s evs)"
  unfolding interleaved_def
proof (induction evs arbitrary: s)
  case Nil
  then show ?case by simp
next
  case (Cons x evs)
  then show ?case by (cases x) (simp add: in_order'_occur)
qed

lemma in_order'_boot: "in_order' boot"
  by (simp add: in_order'_def progress'_def boot_def dispatch_log_def)

lemma occur_processNextAgent:
  "ev \<in> {Arrives ContinueAgent, PicksContinue} \<Longrightarrow>
   \<exists>c. occur s (ev, e) = begin_processNextAgent s c"
  by auto

subsection \<open>The store after a dispatch that failed\<close>

lemma try_agent_store_failed:
  "settle (api e (length (requests s))) = Inl err \<Longrightarrow>
   agentOutputs (fst (try_agent s inp agent e)) = agentOutputs s"
  by (cases "agent_request s inp agent")
     (auto simp: try_agent_def callApiEndpoint_def)

lemma processNextAgent_store_failed:
  assumes "initialInputs s = Some inp"
    and "- 1 \<le> currentAgentIndex s"
    and "currentAgentIndex s + 1 < int (length (agentSequence s))"
    and "settle (api e (length (requests s))) = Inl err"
  shows "agentOutputs (fst (processNextAgent s e)) = agentOutputs s"
proof -
  let ?agent = "agentSequence s ! nat (currentAgentIndex s + 1)"
  let ?s2 = "s\<lparr>currentAgentIndex := currentAgentIndex s + 1, posted := posted s @ [AgentStarted ?agent]\<rparr>"
  have "settle (api e (length (requests ?s2))) = Inl err"
    using assms(4) by simp
  then have "agentOutputs (fst (try_agent ?s2 inp ?agent e)) = agentOutputs ?s2"
    by (rule try_agent_store_failed)
  then show ?thesis
    by (simp add: processNextAgent_in_range [OF assms(1-3) refl] caught_store)
qed

subsection \<open>The concrete run, computed\<close>

lemmas run_defs =
  run_def demo_env_def service_def demo_inputs_def initial_def started_with_def
  processNextAgent_def try_agent_def present_output_def openOutputInEditor_def
  agent_request_def agent_at_def agent_failed_def callApiEndpoint_def settle_def res_ok_def
  validateCurrentAgentOutput_def validateTask_def set_prop_def stored_def
  postMessage_def showInformationMessage_def showErrorMessage_def
  temp_file_def Error_def TypeError_def draft_def edited_def Let_def
  decimal.simps digit_char_def

lemma reviewing_state:
  "reviewing =
     \<lparr> agentOutputs = [''Requirements'' \<mapsto> draft],
       agentSequence = [''Requirements'', ''Architecture''],
       currentAgentIndex = 0,
       initialInputs = Some (demo_inputs [''Requirements'', ''Architecture'']),
       tempFilePaths = [''Requirements'' \<mapsto> ''Requirements_1700.json''],
       posted = [SetAgentSequence [''Requirements'', ''Architecture''],
                 AgentStarted ''Requirements'',
                 ValidateAgent ''Requirements'' [''stories'', ''risks''] draft],
       requests = [(''/agent/requirements'',
                    JObj [(''user_requirements'', JStr ''a todo list''),
                          (''project_context'', JStr ''web''),
                          (''title'', JStr ''demo'')])],
       shown = [InformationMessage
                  ''Requirements results are now open in the editor. Review and validate when ready.''
                  [''Validate'']] \<rparr>"
  by (simp add: reviewing_def run_defs)

lemmas overlap_defs =
  interleaved_def overlapping_def boot_def demo_env_def service_def demo_inputs_def
  begin_processNextAgent_def as_provider_def agent_at_def agent_request_def stored_def
  send_def emit_def suspend_def alloc_def settle_def res_ok_def temp_file_def
  draft_def edited_def Let_def decimal.simps digit_char_def

lemma overlapping_state:
  "interleaved boot overlapping =
     \<lparr> agentOutputs' = [''Architecture'' \<mapsto> 0, ''Requirements'' \<mapsto> 1],
       objects = (\<lambda>r. JUndefined)(0 := edited, 1 := draft),
       fresh = 2,
       agentSequence' = [''Requirements'', ''Architecture''],
       currentAgentIndex' = 1,
       initialInputs' = Some (demo_inputs [''Requirements'', ''Architecture'']),
       tempFilePaths' = Map.empty,
       trace = [Post (SetAgentSequence [''Requirements'', ''Architecture'']),
                Post (AgentStarted ''Requirements''),
                Request ''/agent/requirements''
                  (JObj [(''user_requirements'', JStr ''a todo list''),
                         (''project_context'', JStr ''web''),
                         (''title'', JStr ''demo'')]),
                Post (AgentStarted ''Architecture''),
                Request ''/agent/architecture''
                  (JObj [(''user_requirements'', JStr ''a todo list''),
                         (''project_context'', JStr ''web''),
                         (''title'', JStr ''demo''),
                         (''requirement_output'', JUndefined),
                         (''knowledge_output'', JUndefined)])],
       pending = [AwaitWrite ''Architecture'' 0 ''Architecture_1700.json'',
                  AwaitWrite ''Requirements'' 1 ''Requirements_1700.json''] \<rparr>"
  by (simp add: overlap_defs)

text \<open>Handled one after another, each waiting handler resumed before anything else
  happens, the pieces of the second section give the states of the first.\<close>

lemma models_agree_on_reviewing:
  "as_provider (interleaved boot
      [(Arrives (StartAgents (demo_inputs [''Requirements'', ''Architecture''])), calm),
       (Resumes 0, calm), (Resumes 0, calm), (Resumes 0, calm), (Resumes 0, calm)])
   = reviewing"
  by (simp add: reviewing_state overlap_defs calm_def agent_failed'_def fun_eq_iff)

lemma models_agree_on_review:
  "as_provider (interleaved boot
      [(Arrives (StartAgents (demo_inputs [''Requirements'', ''Architecture''])), calm),
       (Resumes 0, calm), (Resumes 0, calm), (Resumes 0, calm), (Resumes 0, calm),
       (PicksValidate ''Requirements'', calm),
       (Resumes 0, calm), (Resumes 0, calm), (Resumes 0, calm), (Resumes 0, calm),
       (Resumes 0, calm)])
   = validateCurrentAgentOutput reviewing ''Requirements'' calm"
  by (simp add: reviewing_state overlap_defs calm_def agent_failed'_def fun_eq_iff
      begin_validateCurrentAgentOutput_def begin_validateTask_def assign_output_def
      validateCurrentAgentOutput_def validateTask_def callApiEndpoint_def set_prop_def
      postMessage_def showInformationMessage_def)

section \<open>The claims\<close>

text \<open>
  C1 (corrected). The claim: the store holds an entry for an agent only after its output
  has passed the review. The code stores the raw output as soon as the service has
  answered (\<^verbatim>\<open>this.agentOutputs[agent] = output\<close>, before the editor opens). What
  holds: a dispatch whose call succeeds writes the output of the service under the
  agent's name, a dispatch whose call fails leaves the store as it was, and a review
  whose document parses replaces the entry by the parsed document.
\<close>

theorem store_entry_lifecycle:
  assumes "initialInputs s = Some inp"
    and "- 1 \<le> currentAgentIndex s"
    and "currentAgentIndex s + 1 < int (length (agentSequence s))"
    and "agent = agentSequence s ! nat (currentAgentIndex s + 1)"
    and "agent_request s inp agent = Some (endpoint, dat)"
  shows "(settle (api e (length (requests s))) = Inr output \<longrightarrow>
            agentOutputs (fst (processNextAgent s e)) = (agentOutputs s)(agent \<mapsto> output))
       \<and> (settle (api e (length (requests s))) = Inl err \<longrightarrow>
            agentOutputs (fst (processNextAgent s e)) = agentOutputs s)
       \<and> (tempFilePaths s' agent = Some path \<and> document e' = DocParsed v \<longrightarrow>
            agentOutputs (validateCurrentAgentOutput s' agent e') = (agentOutputs s')(agent \<mapsto> v))"
  using processNextAgent_store [OF assms] processNextAgent_store_failed [OF assms(1-3)]
    review_store [of s' agent path e' v]
  by blast

theorem store_entry_lifecycle_witness:
  "agentOutputs (fst (processNextAgent (started_with [''Requirements''])
       (demo_env [Responded 200 (Inr draft)] (DocParsed edited))))
     = [''Requirements'' \<mapsto> draft]
   \<and> agentOutputs (fst (processNextAgent (started_with [''Requirements''])
       (demo_env [Responded 500 (Inr draft)] (DocParsed edited)))) = Map.empty
   \<and> agentOutputs (validateCurrentAgentOutput reviewing ''Requirements''
       (demo_env [] (DocParsed edited))) = [''Requirements'' \<mapsto> edited]"
proof -
  let ?s = "started_with [''Requirements'']"
  let ?inp = "demo_inputs [''Requirements'']"
  let ?dat = "JObj [(''user_requirements'', JStr ''a todo list''),
                    (''project_context'', JStr ''web''), (''title'', JStr ''demo'')]"
  have h: "initialInputs ?s = Some ?inp" "- 1 \<le> currentAgentIndex ?s"
    "currentAgentIndex ?s + 1 < int (length (agentSequence ?s))"
    "''Requirements'' = agentSequence ?s ! nat (currentAgentIndex ?s + 1)"
    "agent_request ?s ?inp ''Requirements'' = Some (''/agent/requirements'', ?dat)"
    by (simp_all add: started_with_def initial_def agent_request_def demo_inputs_def)
  from store_entry_lifecycle [OF h, of "demo_env [Responded 200 (Inr draft)] (DocParsed edited)"
        draft "Error ''''" reviewing "''Requirements_1700.json''"
        "demo_env [] (DocParsed edited)" edited]
  have "agentOutputs (fst (processNextAgent ?s
          (demo_env [Responded 200 (Inr draft)] (DocParsed edited))))
          = [''Requirements'' \<mapsto> draft]"
    and "agentOutputs (validateCurrentAgentOutput reviewing ''Requirements''
          (demo_env [] (DocParsed edited))) = [''Requirements'' \<mapsto> edited]"
    by (simp_all add: reviewing_state started_with_def initial_def demo_env_def service_def
        settle_def res_ok_def)
  moreover
  from store_entry_lifecycle [OF h, of "demo_env [Responded 500 (Inr draft)] (DocParsed edited)"
        draft "Error ''API call failed with status 500''"]
  have "agentOutputs (fst (processNextAgent ?s
          (demo_env [Responded 500 (Inr draft)] (DocParsed edited)))) = Map.empty"
    by (simp add: started_with_def initial_def demo_env_def service_def settle_def res_ok_def
        decimal.simps digit_char_def)
  ultimately show ?thesis by simp
qed

theorem store_before_review_counterexample:
  "agentOutputs reviewing ''Requirements'' = Some draft
   \<and> AgentValidated ''Requirements'' True \<notin> set (posted reviewing)
   \<and> map fst (requests reviewing) = [''/agent/requirements'']"
  by (simp add: reviewing_state)


text \<open>
  C2 (corrected). The claim: the agent at position \<open>i\<close> is dispatched (its data object
  resolved and its request sent) only if every agent before it has an output in the
  store that has passed review and validation, in every interleaving of the messages.
  \<^verbatim>\<open>processNextAgent\<close> looks neither at the store nor at what was validated, and
  \<^verbatim>\<open>continueAgent\<close> calls it unguarded. What holds, the handlers overlapping in any
  order: in every state, the dispatches since the last \<^verbatim>\<open>startAgents\<close> (each
  \<^verbatim>\<open>agentStarted\<close> and each request to an agent) are those of the first
  \<open>currentAgentIndex + 1\<close> agents of the sequence, in its order, every known agent
  announced and then sent to its own endpoint; so position \<open>i\<close> is dispatched only after
  every position before it was. And a dispatch (by \<^verbatim>\<open>continueAgent\<close>, by the
  \<^verbatim>\<open>Continue\<close> button or by \<^verbatim>\<open>startAgents\<close>) announces the agent at the next position and
  sends the data object that the \<^verbatim>\<open>switch\<close> builds from the store as it is at that
  moment, the store just emptied in the case of \<^verbatim>\<open>startAgents\<close>.
\<close>

theorem dispatch_follows_sequence:
  "dispatch_log (trace (interleaved boot evs))
     = concat (map dispatches_of
         (take (nat (currentAgentIndex' (interleaved boot evs) + 1))
               (agentSequence' (interleaved boot evs))))
   \<and> (ev \<in> {Arrives ContinueAgent, PicksContinue}
        \<and> initialInputs' s = Some inp \<and> - 1 \<le> currentAgentIndex' s
        \<and> currentAgentIndex' s + 1 < int (length (agentSequence' s))
        \<and> agent = agentSequence' s ! nat (currentAgentIndex' s + 1)
        \<and> agent_request (as_provider s) inp agent = Some (endpoint, dat)
      \<longrightarrow> trace (occur s (ev, e)) = trace s @ [Post (AgentStarted agent), Request endpoint dat]
          \<and> currentAgentIndex' (occur s (ev, e)) = currentAgentIndex' s + 1)
   \<and> (agents inp' = first # others
        \<and> agent_request (as_provider (s'\<lparr>agentOutputs' := Map.empty\<rparr>)) inp' first
             = Some (endpoint', dat')
      \<longrightarrow> trace (occur s' (Arrives (StartAgents inp'), e'))
            = trace s' @ [Post (SetAgentSequence (agents inp')), Post (AgentStarted first),
                          Request endpoint' dat']
          \<and> currentAgentIndex' (occur s' (Arrives (StartAgents inp'), e')) = 0)"
proof (intro conjI impI)
  show "dispatch_log (trace (interleaved boot evs))
     = concat (map dispatches_of
         (take (nat (currentAgentIndex' (interleaved boot evs) + 1))
               (agentSequence' (interleaved boot evs))))"
    using in_order'_interleaved [OF in_order'_boot, of evs]
    by (simp add: in_order'_def progress'_def)
next
  assume h: "ev \<in> {Arrives ContinueAgent, PicksContinue}
        \<and> initialInputs' s = Some inp \<and> - 1 \<le> currentAgentIndex' s
        \<and> currentAgentIndex' s + 1 < int (length (agentSequence' s))
        \<and> agent = agentSequence' s ! nat (currentAgentIndex' s + 1)
        \<and> agent_request (as_provider s) inp agent = Some (endpoint, dat)"
  then obtain c where c: "occur s (ev, e) = begin_processNextAgent s c"
    using occur_processNextAgent by blast
  from h have pre: "initialInputs' s = Some inp" "- 1 \<le> currentAgentIndex' s"
    "currentAgentIndex' s + 1 < int (length (agentSequence' s))"
    and agent: "agent = agentSequence' s ! nat (currentAgentIndex' s + 1)"
    by simp_all
  from h agent have req: "agent_request (as_provider s) inp
      (agentSequence' s ! nat (currentAgentIndex' s + 1)) = Some (endpoint, dat)"
    by simp
  note step = begin_processNextAgent_in_range [OF pre refl, of c]
  from step req c show "trace (occur s (ev, e)) = trace s @ [Post (AgentStarted agent), Request endpoint dat]"
    by (simp add: agent)
  from step c show "currentAgentIndex' (occur s (ev, e)) = currentAgentIndex' s + 1"
    by simp
next
  assume h: "agents inp' = first # others
        \<and> agent_request (as_provider (s'\<lparr>agentOutputs' := Map.empty\<rparr>)) inp' first
             = Some (endpoint', dat')"
  let ?s2 = "emit (s'\<lparr>initialInputs' := Some inp', agentSequence' := agents inp',
                 agentOutputs' := Map.empty, currentAgentIndex' := - 1,
                 tempFilePaths' := Map.empty\<rparr>) (Post (SetAgentSequence (agents inp')))"
  have "initialInputs' ?s2 = Some inp'" "- 1 \<le> currentAgentIndex' ?s2"
    "currentAgentIndex' ?s2 + 1 < int (length (agentSequence' ?s2))"
    "first = agentSequence' ?s2 ! nat (currentAgentIndex' ?s2 + 1)"
    using h by (simp_all add: emit_def)
  note step = begin_processNextAgent_in_range [OF this, of Handler]
  have "agentOutputs (as_provider ?s2)
          = agentOutputs (as_provider (s'\<lparr>agentOutputs' := Map.empty\<rparr>))"
    by (simp add: as_provider_def emit_def)
  then have "agent_request (as_provider ?s2) inp' first
          = agent_request (as_provider (s'\<lparr>agentOutputs' := Map.empty\<rparr>)) inp' first"
    by (rule agent_request_store)
  with h have req: "agent_request (as_provider ?s2) inp' first = Some (endpoint', dat')"
    by simp
  from step req show "trace (occur s' (Arrives (StartAgents inp'), e'))
            = trace s' @ [Post (SetAgentSequence (agents inp')), Post (AgentStarted first),
                          Request endpoint' dat']"
    by (simp add: Let_def emit_def)
  from step show "currentAgentIndex' (occur s' (Arrives (StartAgents inp'), e')) = 0"
    by (simp add: Let_def emit_def)
qed

theorem dispatch_follows_sequence_witness:
  "dispatch_log (trace (interleaved boot overlapping))
     = [Started ''Requirements'', Sent ''/agent/requirements'',
        Started ''Architecture'', Sent ''/agent/architecture'']
   \<and> trace (occur (interleaved boot (take 1 overlapping))
               (Arrives ContinueAgent, demo_env [] (DocParsed edited)))
     = trace (interleaved boot (take 1 overlapping)) @
         [Post (AgentStarted ''Architecture''),
          Request ''/agent/architecture''
            (JObj [(''user_requirements'', JStr ''a todo list''),
                   (''project_context'', JStr ''web''),
                   (''title'', JStr ''demo''),
                   (''requirement_output'', JUndefined),
                   (''knowledge_output'', JUndefined)])]
   \<and> trace (occur boot (Arrives (StartAgents (demo_inputs [''Requirements'', ''Architecture''])),
                         demo_env [] (DocParsed edited)))
     = [Post (SetAgentSequence [''Requirements'', ''Architecture'']),
        Post (AgentStarted ''Requirements''),
        Request ''/agent/requirements''
          (JObj [(''user_requirements'', JStr ''a todo list''),
                 (''project_context'', JStr ''web''),
                 (''title'', JStr ''demo'')])]"
proof -
  let ?inp = "demo_inputs [''Requirements'', ''Architecture'']"
  let ?e = "demo_env [] (DocParsed edited)"
  let ?s = "interleaved boot (take 1 overlapping)"
  let ?arch = "JObj [(''user_requirements'', JStr ''a todo list''),
                   (''project_context'', JStr ''web''),
                   (''title'', JStr ''demo''),
                   (''requirement_output'', JUndefined),
                   (''knowledge_output'', JUndefined)]"
  let ?reqs = "JObj [(''user_requirements'', JStr ''a todo list''),
                 (''project_context'', JStr ''web''),
                 (''title'', JStr ''demo'')]"
  have s: "?s = \<lparr> agentOutputs' = Map.empty, objects = (\<lambda>r. JUndefined), fresh = 0,
       agentSequence' = [''Requirements'', ''Architecture''], currentAgentIndex' = 0,
       initialInputs' = Some ?inp, tempFilePaths' = Map.empty,
       trace = [Post (SetAgentSequence [''Requirements'', ''Architecture'']),
                Post (AgentStarted ''Requirements''),
                Request ''/agent/requirements'' ?reqs],
       pending = [AwaitReply 0 ''Requirements''] \<rparr>"
    by (simp add: overlap_defs)
  have h2: "Arrives ContinueAgent \<in> {Arrives ContinueAgent, PicksContinue}
        \<and> initialInputs' ?s = Some ?inp \<and> - 1 \<le> currentAgentIndex' ?s
        \<and> currentAgentIndex' ?s + 1 < int (length (agentSequence' ?s))
        \<and> ''Architecture'' = agentSequence' ?s ! nat (currentAgentIndex' ?s + 1)
        \<and> agent_request (as_provider ?s) ?inp ''Architecture''
             = Some (''/agent/architecture'', ?arch)"
    unfolding s
    by (simp add: as_provider_def agent_request_def stored_def demo_inputs_def)
  have h3: "agents ?inp = ''Requirements'' # [''Architecture'']
        \<and> agent_request (as_provider (boot\<lparr>agentOutputs' := Map.empty\<rparr>)) ?inp ''Requirements''
             = Some (''/agent/requirements'', ?reqs)"
    by (simp add: as_provider_def agent_request_def stored_def demo_inputs_def)
  from dispatch_follows_sequence [of overlapping "Arrives ContinueAgent" ?s ?inp
      "''Architecture''" "''/agent/architecture''" ?arch ?e ?inp "''Requirements''"
      "[''Architecture'']" boot "''/agent/requirements''" ?reqs ?e] h2 h3
  have "dispatch_log (trace (interleaved boot overlapping))
     = concat (map dispatches_of
         (take (nat (currentAgentIndex' (interleaved boot overlapping) + 1))
               (agentSequence' (interleaved boot overlapping))))"
    and "trace (occur ?s (Arrives ContinueAgent, ?e))
       = trace ?s @ [Post (AgentStarted ''Architecture''), Request ''/agent/architecture'' ?arch]"
    and "trace (occur boot (Arrives (StartAgents ?inp), ?e))
       = trace boot @ [Post (SetAgentSequence (agents ?inp)), Post (AgentStarted ''Requirements''),
                       Request ''/agent/requirements'' ?reqs]"
    by blast+
  moreover have "trace boot = []" by (simp add: boot_def)
  ultimately show ?thesis
    by (simp add: overlapping_state dispatches_of_def agent_endpoint_def agent_request_def
        demo_inputs_def)
qed

theorem continue_without_review_counterexample:
  "started_agents (posted (step reviewing
      (Receive ContinueAgent, demo_env [Responded 200 (Inr draft), Responded 200 (Inr draft)]
         (DocParsed edited)))) = [''Requirements'', ''Architecture'']
   \<and> map fst (requests (step reviewing
      (Receive ContinueAgent, demo_env [Responded 200 (Inr draft), Responded 200 (Inr draft)]
         (DocParsed edited)))) = [''/agent/requirements'', ''/agent/architecture'']
   \<and> AgentValidated ''Requirements'' True \<notin> set (posted (step reviewing
      (Receive ContinueAgent, demo_env [Responded 200 (Inr draft), Responded 200 (Inr draft)]
         (DocParsed edited))))"
  by (simp add: reviewing_state run_defs started_agents_def)

text \<open>
  C3 (corrected). The claim: when a predecessor that an agent needs has no entry in the
  store, resolving the agent's input fails with a MissingDependency error and nothing is
  sent. The code has no such check: \<^verbatim>\<open>this.agentOutputs[name]\<close> is read as it is. What
  holds: for an agent that takes a field from a predecessor without an entry, the request
  is sent all the same, with that field undefined in the data object, so that it is
  absent from the body.
\<close>

theorem missing_predecessor_dispatched:
  assumes "initialInputs s = Some inp"
    and "- 1 \<le> currentAgentIndex s"
    and "currentAgentIndex s + 1 < int (length (agentSequence s))"
    and "agent = agentSequence s ! nat (currentAgentIndex s + 1)"
    and "(field, pred) \<in> set (predecessor_fields agent)"
    and "agentOutputs s pred = None"
  shows "case agent_request s inp agent of
           None \<Rightarrow> False
         | Some (endpoint, dat) \<Rightarrow>
             requests (fst (processNextAgent s e)) = requests s @ [(endpoint, dat)]
             \<and> map_of (props dat) field = Some JUndefined
             \<and> field \<notin> fst ` set (sent_fields dat)"
proof -
  from assms(5) consider "agent = ''Architecture''" | "agent = ''Skeletons''" | "agent = ''Generator''"
    by (auto simp: predecessor_fields_def split: if_splits)
  note known = this
  from known obtain endpoint dat where req: "agent_request s inp agent = Some (endpoint, dat)"
    by cases (simp_all add: agent_request_def)
  have sent: "requests (fst (processNextAgent s e)) = requests s @ [(endpoint, dat)]"
    using assms(1-4) req by (intro processNextAgent_requests) auto
  from known have "map_of (props dat) field = Some JUndefined \<and> field \<notin> fst ` set (sent_fields dat)"
  proof cases
    case 1
    with assms(5,6) req show ?thesis
      by (auto simp: predecessor_fields_def agent_request_def stored_def sent_fields_def)
  next
    case 2
    with assms(5,6) req show ?thesis
      by (auto simp: predecessor_fields_def agent_request_def stored_def sent_fields_def)
  next
    case 3
    with assms(5,6) req show ?thesis
      by (auto simp: predecessor_fields_def agent_request_def stored_def sent_fields_def)
  qed
  with req sent show ?thesis by simp
qed

theorem missing_predecessor_dispatched_witness:
  "(''knowledge_output'', ''KnowledgeBase'') \<in> set (predecessor_fields ''Architecture'')
   \<and> agentOutputs reviewing ''KnowledgeBase'' = None
   \<and> requests (fst (processNextAgent reviewing (demo_env [] (DocParsed edited))))
       = requests reviewing @
         [(''/agent/architecture'',
           JObj [(''user_requirements'', JStr ''a todo list''),
                 (''project_context'', JStr ''web''),
                 (''title'', JStr ''demo''),
                 (''requirement_output'', draft),
                 (''knowledge_output'', JUndefined)])]"
proof -
  have h: "initialInputs reviewing = Some (demo_inputs [''Requirements'', ''Architecture''])"
    "- 1 \<le> currentAgentIndex reviewing"
    "currentAgentIndex reviewing + 1 < int (length (agentSequence reviewing))"
    "''Architecture'' = agentSequence reviewing ! nat (currentAgentIndex reviewing + 1)"
    "(''knowledge_output'', ''KnowledgeBase'') \<in> set (predecessor_fields ''Architecture'')"
    "agentOutputs reviewing ''KnowledgeBase'' = None"
    by (simp_all add: reviewing_state predecessor_fields_def)
  from missing_predecessor_dispatched [OF h, of "demo_env [] (DocParsed edited)"] h(5,6)
  show ?thesis
    by (simp add: reviewing_state agent_request_def stored_def demo_inputs_def)
qed

theorem missing_dependency_counterexample:
  "agentOutputs initial ''Requirements'' = None
   \<and> requests (run initial [(Receive (StartAgents (demo_inputs [''Architecture''])),
                              demo_env [Responded 200 (Inr draft)] (DocParsed edited))])
       = [(''/agent/architecture'',
           JObj [(''user_requirements'', JStr ''a todo list''),
                 (''project_context'', JStr ''web''),
                 (''title'', JStr ''demo''),
                 (''requirement_output'', JUndefined),
                 (''knowledge_output'', JUndefined)])]
   \<and> posted (run initial [(Receive (StartAgents (demo_inputs [''Architecture''])),
                            demo_env [Responded 200 (Inr draft)] (DocParsed edited))])
       = [SetAgentSequence [''Architecture''], AgentStarted ''Architecture'',
          ValidateAgent ''Architecture'' [''stories'', ''risks''] draft]"
  by (simp add: run_defs)

text \<open>
  C4 (corrected). The claim: when the validation of one task fails, what was acknowledged
  and stored for the other tasks of the agent is kept, and the failure is reported for
  that task, the report naming the task. Nothing in the code puts the name of a task
  into an error report. What holds, when the reviewed document is an object, the first
  \<open>j\<close> validations are acknowledged and the next one fails: the whole document stays in
  the store, the \<open>j\<close> \<^verbatim>\<open>taskValidated\<close> messages stay posted, no later task is sent, no
  \<^verbatim>\<open>agentValidated\<close> is posted, and one error notification is shown, whose text carries
  the message of the failure and nothing of the task.
\<close>

theorem validation_failure_keeps_siblings:
  assumes "tempFilePaths s agent = Some path"
    and "document e = DocParsed (JObj ps)"
    and "j < length ps"
    and "\<forall>i<j. \<exists>ack. settle (api e (length (requests s) + i)) = Inr ack"
    and "settle (api e (length (requests s) + j)) = Inl (ErrorObj name msg)"
  shows "validateCurrentAgentOutput s agent e =
     s\<lparr>agentOutputs := (agentOutputs s)(agent \<mapsto> JObj ps),
       requests := requests s @
          map (\<lambda>t. validation_call t (own_value (JObj ps) t)) (take (Suc j) (map fst ps)),
       posted := posted s @ map (\<lambda>t. TaskValidated agent t True) (take j (map fst ps)),
       shown := shown s @ [ErrorMessage
          (''Invalid JSON format: '' @ msg @ ''. Please fix the errors and try again.'')]\<rparr>"
proof -
  let ?s1 = "s\<lparr>agentOutputs := (agentOutputs s)(agent \<mapsto> JObj ps)\<rparr>"
  have "validate_tasks ?s1 agent (map fst ps) e =
     (?s1\<lparr>requests := requests ?s1 @
          map (\<lambda>t. validation_call t (own_value (JObj ps) t)) (take (Suc j) (map fst ps)),
        posted := posted ?s1 @ map (\<lambda>t. TaskValidated agent t True) (take j (map fst ps))\<rparr>,
      Some (ErrorObj name msg))"
    using assms(3-5) by (intro validate_tasks_prefix) auto
  with assms(1,2) show ?thesis
    by (simp add: validateCurrentAgentOutput_def showErrorMessage_def)
qed

theorem validation_failure_keeps_siblings_witness:
  "validateCurrentAgentOutput reviewing ''Requirements''
      (demo_env [Responded 200 (Inr draft), Responded 200 (Inr (JObj [])),
                 Responded 500 (Inr (JObj []))] (DocParsed edited))
   = reviewing\<lparr>agentOutputs := [''Requirements'' \<mapsto> edited],
       requests := requests reviewing @
          [validation_call ''stories'' (JStr ''as an admin''), validation_call ''risks'' (JNum 3)],
       posted := posted reviewing @ [TaskValidated ''Requirements'' ''stories'' True],
       shown := shown reviewing @ [ErrorMessage
          ''Invalid JSON format: API call failed with status 500. Please fix the errors and try again.'']\<rparr>"
proof -
  let ?e = "demo_env [Responded 200 (Inr draft), Responded 200 (Inr (JObj [])),
                      Responded 500 (Inr (JObj []))] (DocParsed edited)"
  let ?ps = "[(''stories'', JStr ''as an admin''), (''risks'', JNum 3)]"
  have h: "tempFilePaths reviewing ''Requirements'' = Some ''Requirements_1700.json''"
    "document ?e = DocParsed (JObj ?ps)"
    "1 < length ?ps"
    "\<forall>i<1. \<exists>ack. settle (api ?e (length (requests reviewing) + i)) = Inr ack"
    "settle (api ?e (length (requests reviewing) + 1))
       = Inl (ErrorObj ''Error'' ''API call failed with status 500'')"
    by (simp_all add: reviewing_state demo_env_def service_def settle_def res_ok_def edited_def
        Error_def decimal.simps digit_char_def)
  from validation_failure_keeps_siblings [OF h] show ?thesis
    by (simp add: reviewing_state edited_def)
qed

theorem failed_task_not_named_counterexample:
  "shown (validateCurrentAgentOutput reviewing ''Requirements''
      (demo_env [Responded 200 (Inr draft), Responded 200 (Inr (JObj [])),
                 Responded 500 (Inr (JObj []))] (DocParsed edited)))
     = shown reviewing @ [ErrorMessage
         ''Invalid JSON format: API call failed with status 500. Please fix the errors and try again.'']
   \<and> posted (validateCurrentAgentOutput reviewing ''Requirements''
      (demo_env [Responded 200 (Inr draft), Responded 200 (Inr (JObj [])),
                 Responded 500 (Inr (JObj []))] (DocParsed edited)))
     = posted reviewing @ [TaskValidated ''Requirements'' ''stories'' True]
   \<and> \<not> sublist ''risks''
         ''Invalid JSON format: API call failed with status 500. Please fix the errors and try again.''"
  by (simp add: reviewing_state run_defs sublist_Cons_right)


text \<open>
  C5 (confirmed). A run whose sequence is \<open>[Requirements]\<close> and whose call of the service
  fails (the \<^verbatim>\<open>fetch\<close> rejects, the status is not a success, or the body does not
  parse) stops at position 0 with an empty store. Exactly one error message is posted,
  it names Requirements, one request was sent and no other agent is dispatched. The
  code keeps no status field: the failed state is the index 0 with the error posted.
\<close>

theorem requirements_invocation_error:
  assumes "agents inp = [''Requirements'']"
    and "settle (api e (length (requests s))) = Inl err"
  shows "onDidReceiveMessage s (StartAgents inp) e =
           s\<lparr>initialInputs := Some inp, agentSequence := [''Requirements''],
             agentOutputs := Map.empty, currentAgentIndex := 0, tempFilePaths := Map.empty,
             posted := posted s @ [SetAgentSequence [''Requirements''],
                                   AgentStarted ''Requirements'',
                                   ErrorMsg (''Agent Requirements failed: '' @ render err)],
             requests := requests s @ [(''/agent/requirements'',
                JObj [(''user_requirements'', JStr (requirements inp)),
                      (''project_context'', JStr (projContext inp)),
                      (''title'', JStr (title inp))])]\<rparr>"
  using assms
  by (simp add: processNextAgent_def Let_def agent_at_def agent_request_def try_agent_def
      agent_failed_def postMessage_def callApiEndpoint_def)

theorem requirements_invocation_error_witness:
  "run initial [(Receive (StartAgents (demo_inputs [''Requirements''])),
                 demo_env [Responded 500 (Inr JNull)] (DocParsed edited))]
   = initial\<lparr>initialInputs := Some (demo_inputs [''Requirements'']),
       agentSequence := [''Requirements''], currentAgentIndex := 0,
       posted := [SetAgentSequence [''Requirements''], AgentStarted ''Requirements'',
                  ErrorMsg ''Agent Requirements failed: Error: API call failed with status 500''],
       requests := [(''/agent/requirements'',
                     JObj [(''user_requirements'', JStr ''a todo list''),
                           (''project_context'', JStr ''web''),
                           (''title'', JStr ''demo'')])]\<rparr>"
proof -
  let ?e = "demo_env [Responded 500 (Inr JNull)] (DocParsed edited)"
  have h: "agents (demo_inputs [''Requirements'']) = [''Requirements'']"
    "settle (api ?e (length (requests initial)))
       = Inl (Error ''API call failed with status 500'')"
    by (simp_all add: demo_inputs_def demo_env_def service_def settle_def res_ok_def initial_def
        decimal.simps digit_char_def)
  from requirements_invocation_error [OF h] show ?thesis
    by (simp add: run_def initial_def demo_inputs_def Error_def)
qed

text \<open>
  C6 (corrected). The claim: a review whose content cannot be parsed back into a task
  output (a mapping from task names to values) changes neither the position nor the
  store, is reported, and can be followed by a well-formed one. The code rejects only
  what \<^verbatim>\<open>JSON.parse\<close> rejects; a document that parses to something that is not an object
  (a number, \<^verbatim>\<open>null\<close>) is written to the store. What holds, when \<^verbatim>\<open>JSON.parse\<close> throws:
  the state is the one before, with one more error notification that carries the message
  of the parser.
\<close>

theorem syntax_error_keeps_state:
  assumes "tempFilePaths s agent = Some path"
    and "document e = DocSyntaxError (ErrorObj name msg)"
  shows "validateCurrentAgentOutput s agent e =
           s\<lparr>shown := shown s @ [ErrorMessage
               (''Invalid JSON format: '' @ msg @ ''. Please fix the errors and try again.'')]\<rparr>"
  using assms by (simp add: validateCurrentAgentOutput_def showErrorMessage_def)

theorem syntax_error_keeps_state_witness:
  "validateCurrentAgentOutput reviewing ''Requirements''
      (demo_env [] (DocSyntaxError (ErrorObj ''SyntaxError'' ''Unexpected end of JSON input'')))
   = reviewing\<lparr>shown := shown reviewing @ [ErrorMessage
       ''Invalid JSON format: Unexpected end of JSON input. Please fix the errors and try again.'']\<rparr>"
proof -
  let ?e = "demo_env [] (DocSyntaxError (ErrorObj ''SyntaxError'' ''Unexpected end of JSON input''))"
  have h: "tempFilePaths reviewing ''Requirements'' = Some ''Requirements_1700.json''"
    "document ?e = DocSyntaxError (ErrorObj ''SyntaxError'' ''Unexpected end of JSON input'')"
    by (simp_all add: reviewing_state demo_env_def)
  from syntax_error_keeps_state [OF h] show ?thesis by simp
qed

theorem non_object_review_counterexample:
  "agentOutputs reviewing ''Requirements'' = Some draft
   \<and> agentOutputs (validateCurrentAgentOutput reviewing ''Requirements''
        (demo_env [] (DocParsed (JNum 3)))) ''Requirements'' = Some (JNum 3)
   \<and> posted (validateCurrentAgentOutput reviewing ''Requirements''
        (demo_env [] (DocParsed (JNum 3))))
       = posted reviewing @ [AgentValidated ''Requirements'' True]"
  by (simp add: reviewing_state run_defs)

text \<open>
  C7 (confirmed). In a run of \<open>[Requirements, Architecture]\<close> where the call for
  Requirements succeeds, its output opens in the editor, the human submits an object and
  every validation is acknowledged, the agent is reported validated and the data object
  sent for Architecture has the submitted object, as it is, in \<open>requirement_output\<close>.
\<close>

theorem architecture_receives_reviewed_requirements:
  assumes "agents inp = [''Requirements'', ''Architecture'']"
    and "settle (api e1 (length (requests s))) = Inr raw"
    and "editor e1 = EditorOpens"
    and "document e2 = DocParsed (JObj ps)"
    and "\<forall>i<length ps. \<exists>ack. settle (api e2 (Suc (length (requests s)) + i)) = Inr ack"
    and "s1 = onDidReceiveMessage s (StartAgents inp) e1"
    and "s2 = validateCurrentAgentOutput s1 ''Requirements'' e2"
    and "s3 = fst (processNextAgent s2 e3)"
  shows "last (posted s2) = AgentValidated ''Requirements'' True
       \<and> requests s3 = requests s2 @
           [(''/agent/architecture'',
             JObj [(''user_requirements'', JStr (requirements inp)),
                   (''project_context'', JStr (projContext inp)),
                   (''title'', JStr (title inp)),
                   (''requirement_output'', JObj ps),
                   (''knowledge_output'', JUndefined)])]"
proof -
  have s1: "tempFilePaths s1 ''Requirements'' = Some (temp_file ''Requirements'' (now e1))
          \<and> initialInputs s1 = Some inp \<and> agentSequence s1 = [''Requirements'', ''Architecture'']
          \<and> currentAgentIndex s1 = 0 \<and> agentOutputs s1 = [''Requirements'' \<mapsto> raw]
          \<and> length (requests s1) = Suc (length (requests s))"
    by (cases "object_keys raw")
       (simp_all add: assms(1-3,6) processNextAgent_def Let_def agent_at_def try_agent_def
          agent_request_def callApiEndpoint_def present_output_def openOutputInEditor_def
          showInformationMessage_def postMessage_def agent_failed_def)
  let ?s1' = "s1\<lparr>agentOutputs := (agentOutputs s1)(''Requirements'' \<mapsto> JObj ps)\<rparr>"
  have "validate_tasks ?s1' ''Requirements'' (map fst ps) e2 =
     (?s1'\<lparr>requests := requests ?s1' @ map (\<lambda>t. validation_call t (own_value (JObj ps) t)) (map fst ps),
        posted := posted ?s1' @ map (\<lambda>t. TaskValidated ''Requirements'' t True) (map fst ps)\<rparr>, None)"
    using assms(5) s1 by (intro validate_tasks_all_ack) auto
  with s1 assms(4,7) have validated: "last (posted s2) = AgentValidated ''Requirements'' True"
    by (simp add: validateCurrentAgentOutput_def showInformationMessage_def postMessage_def)
  have "progress s2 = progress s1"
    unfolding assms(7) by (rule progress_validateCurrentAgentOutput)
  with s1 have s2: "initialInputs s2 = Some inp" "agentSequence s2 = [''Requirements'', ''Architecture'']"
    "currentAgentIndex s2 = 0"
    by (simp_all add: progress_def)
  have store: "agentOutputs s2 = [''Requirements'' \<mapsto> JObj ps]"
    using s1 assms(4) review_store [of s1 "''Requirements''" _ e2 "JObj ps"]
    by (simp add: assms(7))
  have "agent_request s2 inp (agentSequence s2 ! nat (currentAgentIndex s2 + 1)) =
          Some (''/agent/architecture'',
             JObj [(''user_requirements'', JStr (requirements inp)),
                   (''project_context'', JStr (projContext inp)),
                   (''title'', JStr (title inp)),
                   (''requirement_output'', JObj ps),
                   (''knowledge_output'', JUndefined)])"
    using s2 store by (simp add: agent_request_def stored_def)
  then have "requests (fst (processNextAgent s2 e3)) = requests s2 @
           [(''/agent/architecture'',
             JObj [(''user_requirements'', JStr (requirements inp)),
                   (''project_context'', JStr (projContext inp)),
                   (''title'', JStr (title inp)),
                   (''requirement_output'', JObj ps),
                   (''knowledge_output'', JUndefined)])]"
    using s2 by (intro processNextAgent_requests) auto
  with validated assms(8) show ?thesis by simp
qed

theorem architecture_receives_reviewed_requirements_witness:
  "last (posted (validateCurrentAgentOutput reviewing ''Requirements''
      (demo_env [Responded 200 (Inr draft), Responded 200 (Inr (JObj [])),
                 Responded 200 (Inr (JObj []))] (DocParsed edited))))
     = AgentValidated ''Requirements'' True
   \<and> last (requests (fst (processNextAgent
        (validateCurrentAgentOutput reviewing ''Requirements''
           (demo_env [Responded 200 (Inr draft), Responded 200 (Inr (JObj [])),
                      Responded 200 (Inr (JObj []))] (DocParsed edited)))
        (demo_env [] (DocParsed edited)))))
     = (''/agent/architecture'',
        JObj [(''user_requirements'', JStr ''a todo list''),
              (''project_context'', JStr ''web''),
              (''title'', JStr ''demo''),
              (''requirement_output'', edited),
              (''knowledge_output'', JUndefined)])"
proof -
  let ?inp = "demo_inputs [''Requirements'', ''Architecture'']"
  let ?e1 = "demo_env [Responded 200 (Inr draft)] (DocParsed edited)"
  let ?e2 = "demo_env [Responded 200 (Inr draft), Responded 200 (Inr (JObj [])),
                       Responded 200 (Inr (JObj []))] (DocParsed edited)"
  let ?ps = "[(''stories'', JStr ''as an admin''), (''risks'', JNum 3)]"
  have h: "agents ?inp = [''Requirements'', ''Architecture'']"
    "settle (api ?e1 (length (requests initial))) = Inr draft"
    "editor ?e1 = EditorOpens"
    "document ?e2 = DocParsed (JObj ?ps)"
    "\<forall>i<length ?ps. \<exists>ack. settle (api ?e2 (Suc (length (requests initial)) + i)) = Inr ack"
    "reviewing = onDidReceiveMessage initial (StartAgents ?inp) ?e1"
    by (simp_all add: demo_inputs_def demo_env_def service_def settle_def res_ok_def initial_def
        edited_def reviewing_def run_def less_Suc_eq)
  from architecture_receives_reviewed_requirements [OF h refl refl, of "demo_env [] (DocParsed edited)"]
  show ?thesis
    by (simp add: demo_inputs_def edited_def)
qed

text \<open>
  C8 (confirmed). Validating again a task with the value that the store already has for
  it leaves the store as it was: for an entry of an agent, a key of that entry and the
  value the entry has at that key, \<^verbatim>\<open>validateTask\<close> ends with the same store, whether
  the call is acknowledged or not.
\<close>

theorem revalidation_idempotent:
  assumes "agentOutputs s agentName = Some entry"
    and "object_keys entry = Inr ks" and "taskName \<in> set ks"
    and "own_value entry taskName = v"
  shows "agentOutputs (fst (validateTask s agentName taskName v e)) = agentOutputs s"
  using validateTask_own_value_store [OF assms(1-3)] assms(4) by simp

theorem revalidation_idempotent_witness:
  "agentOutputs reviewing ''Requirements'' = Some draft
   \<and> own_value draft ''risks'' = JNum 2
   \<and> agentOutputs (fst (validateTask reviewing ''Requirements'' ''risks'' (JNum 2)
        (demo_env [Responded 200 (Inr draft), Responded 200 (Inr (JObj []))] (DocParsed edited))))
     = agentOutputs reviewing"
proof -
  have h: "agentOutputs reviewing ''Requirements'' = Some draft"
    "object_keys draft = Inr [''stories'', ''risks'']"
    "''risks'' \<in> set [''stories'', ''risks'']"
    "own_value draft ''risks'' = JNum 2"
    by (simp_all add: reviewing_state draft_def)
  from revalidation_idempotent [OF h] h(1,4) show ?thesis by simp
qed

text \<open>
  C9 (confirmed). Dispatching an agent whose name is none of KnowledgeBase, Requirements,
  Architecture, Skeletons and Generator posts \<^verbatim>\<open>agentStarted\<close> and then one error message,
  \<^verbatim>\<open>Agent <name> failed: Error: Unknown agent: <name>\<close>; the store and the requests are
  unchanged, and the index has moved by one position only.
\<close>

theorem unknown_agent_error:
  assumes "initialInputs s = Some inp"
    and "- 1 \<le> currentAgentIndex s"
    and "currentAgentIndex s + 1 < int (length (agentSequence s))"
    and "agent = agentSequence s ! nat (currentAgentIndex s + 1)"
    and "agent \<notin> {''KnowledgeBase'', ''Requirements'', ''Architecture'', ''Skeletons'', ''Generator''}"
  shows "processNextAgent s e =
           (s\<lparr>currentAgentIndex := currentAgentIndex s + 1,
              posted := posted s @ [AgentStarted agent,
                ErrorMsg (''Agent '' @ agent @ '' failed: Error: Unknown agent: '' @ agent)]\<rparr>,
            None)"
proof -
  have "agent_request s' inp agent = None" for s'
    using assms(5) by (simp add: agent_request_def)
  then show ?thesis
    by (simp add: processNextAgent_in_range [OF assms(1-4)] try_agent_def agent_failed_def
        postMessage_def Error_def)
qed

theorem unknown_agent_error_witness:
  "processNextAgent (started_with [''Deployer'']) (demo_env [] (DocParsed edited))
   = ((started_with [''Deployer''])\<lparr>currentAgentIndex := 0,
        posted := [SetAgentSequence [''Deployer''], AgentStarted ''Deployer'',
                   ErrorMsg ''Agent Deployer failed: Error: Unknown agent: Deployer'']\<rparr>,
      None)"
proof -
  let ?s = "started_with [''Deployer'']"
  have h: "initialInputs ?s = Some (demo_inputs [''Deployer''])"
    "- 1 \<le> currentAgentIndex ?s"
    "currentAgentIndex ?s + 1 < int (length (agentSequence ?s))"
    "''Deployer'' = agentSequence ?s ! nat (currentAgentIndex ?s + 1)"
    "''Deployer'' \<notin> {''KnowledgeBase'', ''Requirements'', ''Architecture'', ''Skeletons'', ''Generator''}"
    by (simp_all add: started_with_def initial_def)
  from unknown_agent_error [OF h] show ?thesis
    by (simp add: started_with_def initial_def)
qed

text \<open>
  C10 (confirmed). \<^verbatim>\<open>validateTask\<close> touches the store and posts \<^verbatim>\<open>taskValidated\<close> only
  after the call of the service has succeeded. When the call fails, the state is the one
  before with the request logged, and the failure leaves the method. If the store or the
  posted messages have changed, the call succeeded. When the call succeeds on a task of
  an object entry, the value is written and \<^verbatim>\<open>taskValidated\<close> is posted.
\<close>

theorem validateTask_atomic:
  "(settle (api e (length (requests s))) = Inl err \<longrightarrow>
      validateTask s agentName taskName v e =
        (s\<lparr>requests := requests s @ [validation_call taskName v]\<rparr>, Some err))
   \<and> ((agentOutputs (fst (validateTask s agentName taskName v e)) \<noteq> agentOutputs s
        \<or> posted (fst (validateTask s agentName taskName v e)) \<noteq> posted s) \<longrightarrow>
       (\<exists>ack. settle (api e (length (requests s))) = Inr ack))
   \<and> (settle (api e (length (requests s))) = Inr ack \<and> agentOutputs s agentName = Some (JObj ps)
        \<and> taskName \<in> fst ` set ps \<longrightarrow>
      validateTask s agentName taskName v e =
        (s\<lparr>requests := requests s @ [validation_call taskName v],
            agentOutputs := (agentOutputs s)(agentName \<mapsto> JObj (AList.update taskName v ps)),
            posted := posted s @ [TaskValidated agentName taskName True]\<rparr>, None))"
  by (auto simp: validateTask_def callApiEndpoint_def stored_def postMessage_def set_prop_def
      validation_call_def split: sum.splits)

theorem validateTask_atomic_witness:
  "validateTask reviewing ''Requirements'' ''risks'' (JNum 5)
      (demo_env [Responded 200 (Inr draft), Responded 503 (Inr JNull)] (DocParsed edited))
     = (reviewing\<lparr>requests := requests reviewing @ [validation_call ''risks'' (JNum 5)]\<rparr>,
        Some (Error ''API call failed with status 503''))
   \<and> validateTask reviewing ''Requirements'' ''risks'' (JNum 5)
      (demo_env [Responded 200 (Inr draft), Responded 200 (Inr (JObj []))] (DocParsed edited))
     = (reviewing\<lparr>requests := requests reviewing @ [validation_call ''risks'' (JNum 5)],
          agentOutputs := [''Requirements'' \<mapsto>
             JObj [(''stories'', JStr ''as a user''), (''risks'', JNum 5)]],
          posted := posted reviewing @ [TaskValidated ''Requirements'' ''risks'' True]\<rparr>, None)"
proof -
  let ?bad = "demo_env [Responded 200 (Inr draft), Responded 503 (Inr JNull)] (DocParsed edited)"
  let ?good = "demo_env [Responded 200 (Inr draft), Responded 200 (Inr (JObj []))] (DocParsed edited)"
  have bad: "settle (api ?bad (length (requests reviewing)))
               = Inl (Error ''API call failed with status 503'')"
    by (simp add: reviewing_state demo_env_def service_def settle_def res_ok_def
        decimal.simps digit_char_def)
  have good: "settle (api ?good (length (requests reviewing))) = Inr (JObj [])"
    "agentOutputs reviewing ''Requirements''
       = Some (JObj [(''stories'', JStr ''as a user''), (''risks'', JNum 2)])"
    by (simp_all add: reviewing_state demo_env_def service_def settle_def res_ok_def draft_def)
  from validateTask_atomic [of ?bad reviewing "Error ''API call failed with status 503''"
      "''Requirements''" "''risks''" "JNum 5"] bad
  have "validateTask reviewing ''Requirements'' ''risks'' (JNum 5) ?bad
     = (reviewing\<lparr>requests := requests reviewing @ [validation_call ''risks'' (JNum 5)]\<rparr>,
        Some (Error ''API call failed with status 503''))"
    by blast
  moreover
  from validateTask_atomic [of ?good reviewing _ "''Requirements''" "''risks''" "JNum 5"
      "JObj []" "[(''stories'', JStr ''as a user''), (''risks'', JNum 2)]"] good
  have "validateTask reviewing ''Requirements'' ''risks'' (JNum 5) ?good
     = (reviewing\<lparr>requests := requests reviewing @ [validation_call ''risks'' (JNum 5)],
          agentOutputs := [''Requirements'' \<mapsto>
             JObj [(''stories'', JStr ''as a user''), (''risks'', JNum 5)]],
          posted := posted reviewing @ [TaskValidated ''Requirements'' ''risks'' True]\<rparr>, None)"
    by (simp add: reviewing_state draft_def)
  ultimately show ?thesis by simp
qed

end
